theory Spec2Isabelle
  imports Main "HOL-Library.Word"
begin

unbundle bit_operations_syntax

section \<open>Strings, bytes and errors\<close>

text \<open>
  A Python \<open>str\<close> is a sequence of Unicode code points and a \<open>bytes\<close> value a sequence
  of octets. Code points are natural numbers; \<open>lit\<close> turns an ASCII literal of the source
  into the code points it stands for.
\<close>

type_synonym byte = "8 word"
type_synonym pybytes = "byte list"
type_synonym pystr = "nat list"

definition lit :: "string \<Rightarrow> pystr" where
  "lit s = map of_char s"

text \<open>The exceptions the module can raise, as values.\<close>

datatype error =
    KeyError pystr
  | UnicodeEncodeError
  | ValueError
  | AttributeError
  | InvalidWorksheetName
  | DuplicateWorksheetName
  | ClientError string

definition bindE :: "error + 'a \<Rightarrow> ('a \<Rightarrow> error + 'b) \<Rightarrow> error + 'b" where
  "bindE m f = (case m of Inl e \<Rightarrow> Inl e | Inr x \<Rightarrow> f x)"

subsection \<open>\<open>str.encode('utf-8')\<close>\<close>

text \<open>
  Strict UTF-8: one to four octets per code point; the surrogates U+D800..U+DFFF have no
  encoding and make \<open>encode\<close> raise \<open>UnicodeEncodeError\<close>.
\<close>

definition utf8_cp :: "nat \<Rightarrow> pybytes option" where
  "utf8_cp c =
     (if c < 0x80 then Some [of_nat c]
      else if c < 0x800 then
        Some [of_nat (0xC0 + c div 64), of_nat (0x80 + c mod 64)]
      else if 0xD800 \<le> c \<and> c \<le> 0xDFFF then None
      else if c < 0x10000 then
        Some [of_nat (0xE0 + c div 4096), of_nat (0x80 + c div 64 mod 64),
              of_nat (0x80 + c mod 64)]
      else if c < 0x110000 then
        Some [of_nat (0xF0 + c div 262144), of_nat (0x80 + c div 4096 mod 64),
              of_nat (0x80 + c div 64 mod 64), of_nat (0x80 + c mod 64)]
      else None)"

fun encode_utf8 :: "pystr \<Rightarrow> error + pybytes" where
  "encode_utf8 [] = Inr []"
| "encode_utf8 (c # cs) =
     (case utf8_cp c of
        None \<Rightarrow> Inl UnicodeEncodeError
      | Some bs \<Rightarrow> bindE (encode_utf8 cs) (\<lambda>rest. Inr (bs @ rest)))"

section \<open>The hash primitives of \<open>hashlib\<close> and \<open>hmac\<close>\<close>

text \<open>
  \<open>hashlib.sha256\<close> is SHA-256 of FIPS 180-4 on octet strings and \<open>hmac.new(key, msg,
  hashlib.sha256)\<close> is HMAC of RFC 2104 over it. The round constants are the first 32 bits
  of the fractional parts of the cube roots of the first 64 primes, the initial hash value
  those of the square roots of the first 8 primes.
\<close>

type_synonym u32 = "32 word"
type_synonym hstate = "u32 \<times> u32 \<times> u32 \<times> u32 \<times> u32 \<times> u32 \<times> u32 \<times> u32"

definition K256 :: "u32 list" where
  "K256 =
    [1116352408, 1899447441, 3049323471, 3921009573, 961987163, 1508970993,
     2453635748, 2870763221, 3624381080, 310598401, 607225278, 1426881987,
     1925078388, 2162078206, 2614888103, 3248222580, 3835390401, 4022224774,
     264347078, 604807628, 770255983, 1249150122, 1555081692, 1996064986,
     2554220882, 2821834349, 2952996808, 3210313671, 3336571891, 3584528711,
     113926993, 338241895, 666307205, 773529912, 1294757372, 1396182291,
     1695183700, 1986661051, 2177026350, 2456956037, 2730485921, 2820302411,
     3259730800, 3345764771, 3516065817, 3600352804, 4094571909, 275423344,
     430227734, 506948616, 659060556, 883997877, 958139571, 1322822218,
     1537002063, 1747873779, 1955562222, 2024104815, 2227730452, 2361852424,
     2428436474, 2756734187, 3204031479, 3329325298]"

definition H256 :: hstate where
  "H256 = (1779033703, 3144134277, 1013904242, 2773480762,
           1359893119, 2600822924, 528734635, 1541459225)"

definition rotr :: "nat \<Rightarrow> u32 \<Rightarrow> u32" where
  "rotr n x = drop_bit n x OR push_bit (32 - n) x"

definition Ch :: "u32 \<Rightarrow> u32 \<Rightarrow> u32 \<Rightarrow> u32" where
  "Ch x y z = (x AND y) XOR (NOT x AND z)"

definition Maj :: "u32 \<Rightarrow> u32 \<Rightarrow> u32 \<Rightarrow> u32" where
  "Maj x y z = (x AND y) XOR (x AND z) XOR (y AND z)"

definition bsig0 :: "u32 \<Rightarrow> u32" where
  "bsig0 x = rotr 2 x XOR rotr 13 x XOR rotr 22 x"

definition bsig1 :: "u32 \<Rightarrow> u32" where
  "bsig1 x = rotr 6 x XOR rotr 11 x XOR rotr 25 x"

definition ssig0 :: "u32 \<Rightarrow> u32" where
  "ssig0 x = rotr 7 x XOR rotr 18 x XOR drop_bit 3 x"

definition ssig1 :: "u32 \<Rightarrow> u32" where
  "ssig1 x = rotr 17 x XOR rotr 19 x XOR drop_bit 10 x"

text \<open>Big-endian conversions between octets and words.\<close>

fun be_words :: "pybytes \<Rightarrow> u32 list" where
  "be_words (a # b # c # d # rest) =
     (push_bit 24 (ucast a) OR push_bit 16 (ucast b) OR push_bit 8 (ucast c) OR ucast d)
       # be_words rest"
| "be_words _ = []"

definition be32 :: "u32 \<Rightarrow> pybytes" where
  "be32 w = [ucast (drop_bit 24 w), ucast (drop_bit 16 w), ucast (drop_bit 8 w), ucast w]"

definition be64 :: "64 word \<Rightarrow> pybytes" where
  "be64 w = map (\<lambda>i. ucast (drop_bit (8 * i) w)) [7, 6, 5, 4, 3, 2, 1, 0]"

text \<open>Padding to a multiple of 64 octets: 0x80, zeros, the bit length in 64 bits.\<close>

definition sha_pad :: "pybytes \<Rightarrow> pybytes" where
  "sha_pad m =
     m @ [0x80] @ replicate ((64 - (length m + 9) mod 64) mod 64) 0
       @ be64 (of_nat (8 * length m))"

function blocks64 :: "pybytes \<Rightarrow> pybytes list" where
  "blocks64 bs = (if bs = [] then [] else take 64 bs # blocks64 (drop 64 bs))"
  by pat_completeness auto
termination
  by (relation "measure length") auto

declare blocks64.simps [simp del]

text \<open>The message schedule: 16 words of the block extended to 64.\<close>

fun schedule :: "nat \<Rightarrow> u32 list \<Rightarrow> u32 list" where
  "schedule 0 W = W"
| "schedule (Suc n) W =
     (let t = length W in
      schedule n (W @ [ssig1 (W ! (t - 2)) + W ! (t - 7) + ssig0 (W ! (t - 15)) + W ! (t - 16)]))"

fun sha_round :: "u32 \<times> u32 \<Rightarrow> hstate \<Rightarrow> hstate" where
  "sha_round (k, w) (a, b, c, d, e, f, g, h) =
     (let T1 = h + bsig1 e + Ch e f g + k + w;
          T2 = bsig0 a + Maj a b c
      in (T1 + T2, a, b, c, d + T1, e, f, g))"

fun hstate_add :: "hstate \<Rightarrow> hstate \<Rightarrow> hstate" where
  "hstate_add (a, b, c, d, e, f, g, h) (a', b', c', d', e', f', g', h') =
     (a + a', b + b', c + c', d + d', e + e', f + f', g + g', h + h')"

definition compress :: "pybytes \<Rightarrow> hstate \<Rightarrow> hstate" where
  "compress block H = hstate_add H (fold sha_round (zip K256 (schedule 48 (be_words block))) H)"

fun hstate_bytes :: "hstate \<Rightarrow> pybytes" where
  "hstate_bytes (a, b, c, d, e, f, g, h) =
     be32 a @ be32 b @ be32 c @ be32 d @ be32 e @ be32 f @ be32 g @ be32 h"

definition sha256 :: "pybytes \<Rightarrow> pybytes" where
  "sha256 m = hstate_bytes (fold compress (blocks64 (sha_pad m)) H256)"

definition hmac_sha256 :: "pybytes \<Rightarrow> pybytes \<Rightarrow> pybytes" where
  "hmac_sha256 key msg =
     (let k0 = (if 64 < length key then sha256 key else key);
          k = k0 @ replicate (64 - length k0) 0
      in sha256 (map (\<lambda>b. b XOR 0x5C) k @ sha256 (map (\<lambda>b. b XOR 0x36) k @ msg)))"

text \<open>\<open>hexdigest\<close>: two lowercase hexadecimal digits per octet.\<close>

definition hex_digit :: "string \<Rightarrow> nat \<Rightarrow> nat" where
  "hex_digit alphabet n = of_char (alphabet ! n)"

definition hex_lower :: "pybytes \<Rightarrow> pystr" where
  "hex_lower bs =
     concat (map (\<lambda>b. [hex_digit ''0123456789abcdef'' (unat b div 16),
                        hex_digit ''0123456789abcdef'' (unat b mod 16)]) bs)"

section \<open>The signing key\<close>

text \<open>\<open>get_hash(key, msg)\<close>: the message is a string, encoded before it is hashed.\<close>

definition get_hash :: "pybytes \<Rightarrow> pystr \<Rightarrow> error + pybytes" where
  "get_hash key msg = bindE (encode_utf8 msg) (\<lambda>m. Inr (hmac_sha256 key m))"

definition create_signature_key :: "pystr \<Rightarrow> pystr \<Rightarrow> pystr \<Rightarrow> pystr \<Rightarrow> error + pybytes" where
  "create_signature_key key datestamp region service =
     bindE (encode_utf8 (lit ''AWS4'' @ key)) (\<lambda>secret.
     bindE (get_hash secret datestamp) (\<lambda>key_date.
     bindE (get_hash key_date region) (\<lambda>key_region.
     bindE (get_hash key_region service) (\<lambda>key_service.
     bindE (get_hash key_service (lit ''aws4_request'')) (\<lambda>key_signing.
     Inr key_signing)))))"

section \<open>The presigned link\<close>

subsection \<open>The clock and \<open>strftime\<close>\<close>

text \<open>
  \<open>datetime.datetime.utcnow()\<close> is the only thing \<open>generate_link\<close> reads besides its
  arguments; the value it returns is a parameter of the model. \<open>strftime\<close> writes each
  field in decimal, padded with zeros to its width (4 for \<open>%Y\<close>, 2 for the others).
\<close>

record datetime =
  year :: nat
  month :: nat
  day :: nat
  hour :: nat
  minute :: nat
  second :: nat
  microsecond :: nat

function dec_digits :: "nat \<Rightarrow> pystr" where
  "dec_digits n = (if n < 10 then [48 + n] else dec_digits (n div 10) @ [48 + n mod 10])"
  by pat_completeness auto
termination
  by (relation "measure id") auto

declare dec_digits.simps [simp del]

definition zero_pad :: "nat \<Rightarrow> nat \<Rightarrow> pystr" where
  "zero_pad width n = (let ds = dec_digits n in replicate (width - length ds) 48 @ ds)"

text \<open>\<open>cur_time.strftime('%Y%m%dT%H%M%SZ')\<close> and \<open>cur_time.strftime('%Y%m%d')\<close>.\<close>

definition strftime_timestamp :: "datetime \<Rightarrow> pystr" where
  "strftime_timestamp t =
     zero_pad 4 (year t) @ zero_pad 2 (month t) @ zero_pad 2 (day t) @ lit ''T'' @
     zero_pad 2 (hour t) @ zero_pad 2 (minute t) @ zero_pad 2 (second t) @ lit ''Z''"

definition strftime_datestamp :: "datetime \<Rightarrow> pystr" where
  "strftime_datestamp t = zero_pad 4 (year t) @ zero_pad 2 (month t) @ zero_pad 2 (day t)"

text \<open>
  \<open>str(expiration)\<close> of a Python integer: decimal digits, a minus sign when negative
  (\<open>int_text\<close>). The interpreter refuses, with \<open>ValueError\<close>, to convert an integer of
  more digits than its limit, which is 4300 unless it is configured otherwise.
\<close>

definition int_text :: "int \<Rightarrow> pystr" where
  "int_text i = (if i < 0 then 45 # dec_digits (nat (- i)) else dec_digits (nat i))"

definition int_max_str_digits :: nat where
  "int_max_str_digits = 4300"

definition str_int :: "int \<Rightarrow> error + pystr" where
  "str_int i =
     (if int_max_str_digits < length (dec_digits (nat \<bar>i\<bar>)) then Inl ValueError
      else Inr (int_text i))"

subsection \<open>\<open>quote\<close>\<close>

text \<open>
  \<open>requests.utils.quote\<close> is \<open>urllib.parse.quote\<close>: the string is encoded as UTF-8, and
  every octet that is neither an ASCII letter, a digit, one of \<open>_.-~\<close>, nor an ASCII
  character of \<open>safe\<close> becomes \<open>%XX\<close> with two uppercase hexadecimal digits.
\<close>

definition always_safe :: pystr where
  "always_safe =
     lit ''ABCDEFGHIJKLMNOPQRSTUVWXYZabcdefghijklmnopqrstuvwxyz0123456789_.-~''"

definition hex_upper :: "byte \<Rightarrow> pystr" where
  "hex_upper b = [hex_digit ''0123456789ABCDEF'' (unat b div 16),
                  hex_digit ''0123456789ABCDEF'' (unat b mod 16)]"

definition quote_byte :: "pystr \<Rightarrow> byte \<Rightarrow> pystr" where
  "quote_byte safe b =
     (if unat b \<in> set (always_safe @ filter (\<lambda>c. c < 128) safe) then [unat b]
      else 37 # hex_upper b)"

definition quote :: "pystr \<Rightarrow> pystr \<Rightarrow> error + pystr" where
  "quote string safe =
     bindE (encode_utf8 string) (\<lambda>bs. Inr (concat (map (quote_byte safe) bs)))"

subsection \<open>\<open>generate_link\<close>\<close>

text \<open>\<open>credentials[k]\<close> on a dictionary: \<open>KeyError\<close> when the key is absent.\<close>

definition getitem :: "(pystr \<rightharpoonup> 'a) \<Rightarrow> pystr \<Rightarrow> error + 'a" where
  "getitem d k = (case d k of None \<Rightarrow> Inl (KeyError k) | Some v \<Rightarrow> Inr v)"

definition generate_link ::
  "datetime \<Rightarrow> pystr \<Rightarrow> (pystr \<rightharpoonup> pystr) \<Rightarrow> int \<Rightarrow> error + pystr" where
  "generate_link cur_time filename credentials expiration =
    (let region = lit '''';
         http_method = lit ''GET''
     in
     bindE (getitem credentials (lit ''host'')) (\<lambda>host.
     let endpoint = lit ''https://'' @ host;
         timestamp = strftime_timestamp cur_time;
         datestamp = strftime_datestamp cur_time
     in
     bindE (getitem credentials (lit ''access_key_id'')) (\<lambda>access_key_id.
     bindE (str_int expiration) (\<lambda>expiration_str.
     let standardized_querystring =
           lit ''X-Amz-Algorithm=AWS4-HMAC-SHA256'' @
           lit ''&X-Amz-Credential='' @ access_key_id @ lit ''/'' @ datestamp @ lit ''/'' @ region @
           lit ''/s3/aws4_request'' @
           lit ''&X-Amz-Date='' @ timestamp @
           lit ''&X-Amz-Expires='' @ expiration_str @
           lit ''&X-Amz-SignedHeaders=host''
     in
     bindE (quote standardized_querystring (lit ''&='')) (\<lambda>standardized_querystring_url_encoded.
     bindE (getitem credentials (lit ''BUCKET'')) (\<lambda>bucket.
     let standardized_resource = lit ''/'' @ bucket @ lit ''/'' @ filename;
         payload_hash = lit ''UNSIGNED-PAYLOAD'';
         standardized_headers = lit ''host:'' @ host;
         signed_headers = lit ''host'';
         standardized_request =
           http_method @ [10] @
           standardized_resource @ [10] @
           standardized_querystring_url_encoded @ [10] @
           standardized_headers @ [10] @
           [10] @
           signed_headers @ [10] @
           payload_hash;
         hashing_algorithm = lit ''AWS4-HMAC-SHA256'';
         credential_scope = datestamp @ lit ''/'' @ region @ lit ''/'' @ lit ''s3'' @ lit ''/'' @
           lit ''aws4_request''
     in
     bindE (encode_utf8 standardized_request) (\<lambda>request_bytes.
     let sts = hashing_algorithm @ [10] @
               timestamp @ [10] @
               credential_scope @ [10] @
               hex_lower (sha256 request_bytes)
     in
     bindE (getitem credentials (lit ''secret_access_key'')) (\<lambda>secret_access_key.
     bindE (create_signature_key secret_access_key datestamp region (lit ''s3'')) (\<lambda>signature_key.
     bindE (encode_utf8 sts) (\<lambda>sts_bytes.
     let signature = hex_lower (hmac_sha256 signature_key sts_bytes);
         request_url = endpoint @ lit ''/'' @
                       bucket @ lit ''/'' @
                       filename @ lit ''?'' @
                       standardized_querystring_url_encoded @
                       lit ''&X-Amz-Signature='' @
                       signature
     in Inr request_url))))))))))"

text \<open>
  The call itself. \<open>datetime.datetime.utcnow()\<close> is made once, after
  \<open>credentials['host']\<close> has been looked up; it is the one thing the function asks of
  the world outside its arguments. The world is a state of any type, and \<open>utcnow\<close>
  gives the reading of the clock in a state together with the state afterwards.
\<close>

definition generate_link_call ::
  "('w \<Rightarrow> datetime \<times> 'w) \<Rightarrow> pystr \<Rightarrow> (pystr \<rightharpoonup> pystr) \<Rightarrow> int \<Rightarrow> 'w \<Rightarrow> (error + pystr) \<times> 'w" where
  "generate_link_call utcnow filename credentials expiration world =
     (case getitem credentials (lit ''host'') of
        Inl e \<Rightarrow> (Inl e, world)
      | Inr host \<Rightarrow>
          (case utcnow world of
             (cur_time, world') \<Rightarrow>
               (generate_link cur_time filename credentials expiration, world')))"

section \<open>The spreadsheet reports\<close>

subsection \<open>Worksheets, workbooks and data frames\<close>

text \<open>
  What the module asks of \<open>pandas\<close> and its \<open>xlsxwriter\<close> engine, as far as the
  module uses it. A worksheet keeps the cells written to it, the height and format given
  to a row by \<open>set_row\<close> and the width given to a column by \<open>set_column\<close>. The
  workbook keeps its sheets by name, in the order they were added, and counts the sheets
  it was asked to add; \<open>writer.sheets\<close> is the workbook's table of sheets. The values
  in the cells are of any type \<open>'v\<close>; what the engine makes of a particular value is not
  modelled.
\<close>

record cell_format =
  bg_color :: "string option"
  text_wrap :: bool

record 'v worksheet =
  cells :: "nat \<times> nat \<rightharpoonup> 'v"
  row_info :: "nat \<rightharpoonup> nat option \<times> cell_format option"
  col_width :: "nat \<rightharpoonup> nat"

record 'v workbook =
  default_font_size :: nat
  sheetname_count :: nat
  sheet_names :: "pystr list"
  sheets :: "pystr \<rightharpoonup> 'v worksheet"

record 'v dataframe =
  df_columns :: "'v list"
  df_index :: "'v list"
  df_values :: "'v list list"

definition len_df :: "'v dataframe \<Rightarrow> nat" where
  "len_df df = length (df_index df)"

definition new_worksheet :: "'v worksheet" where
  "new_worksheet = \<lparr>cells = Map.empty, row_info = Map.empty, col_width = Map.empty\<rparr>"

text \<open>A new workbook: no sheets; the default format has the engine's font size, 11.\<close>

definition engine_font_size :: nat where
  "engine_font_size = 11"

definition new_workbook :: "'v workbook" where
  "new_workbook =
     \<lparr>default_font_size = engine_font_size, sheetname_count = 0, sheet_names = [],
      sheets = Map.empty\<rparr>"

text \<open>
  A sheet has \<open>xls_rowmax\<close> rows and \<open>xls_colmax\<close> columns. The engine ignores, without
  an error, what is asked for a row or a column beyond them.
\<close>

definition xls_rowmax :: nat where
  "xls_rowmax = 1048576"

definition xls_colmax :: nat where
  "xls_colmax = 16384"

text \<open>\<open>worksheet.set_row(row, height, cell_format)\<close>; a height of \<open>None\<close> is the default.\<close>

definition set_row ::
  "nat \<Rightarrow> nat option \<Rightarrow> cell_format option \<Rightarrow> 'v worksheet \<Rightarrow> 'v worksheet" where
  "set_row row height fmt ws =
     (if xls_rowmax \<le> row then ws
      else ws\<lparr>row_info := (row_info ws)(row \<mapsto> (height, fmt))\<rparr>)"

text \<open>
  \<open>worksheet.set_column('F:G', width)\<close>, with the column letters read as indices
  (\<open>A\<close> is 0, \<open>AH\<close> is 33). The module names only columns of the sheet, first column
  before last.
\<close>

definition set_column :: "nat \<Rightarrow> nat \<Rightarrow> nat \<Rightarrow> 'v worksheet \<Rightarrow> 'v worksheet" where
  "set_column first_col last_col width ws =
     ws\<lparr>col_width :=
          (\<lambda>c. if first_col \<le> c \<and> c \<le> last_col then Some width else col_width ws c)\<rparr>"

text \<open>
  \<open>workbook.add_worksheet(name)\<close>. The engine counts the request, gives an empty name
  the default \<open>Sheet\<close> followed by the count, and raises \<open>InvalidWorksheetName\<close> for a
  name of more than 31 characters, a name with one of the characters \<open>[]:*?/\<close> or a
  backslash, and a name that starts or ends with an apostrophe, and
  \<open>DuplicateWorksheetName\<close> for a name that is, letter case ignored, the name of a sheet
  of the workbook. It compares \<open>sheetname.lower()\<close> with \<open>worksheet.get_name().lower()\<close>;
  \<open>str.lower\<close> is the parameter \<open>lower\<close>. The result is the name the sheet is kept
  under and the workbook with the new, empty sheet.
\<close>

definition invalid_char :: pystr where
  "invalid_char = lit ''[]:*?/'' @ [92]"

definition startswith :: "pystr \<Rightarrow> pystr \<Rightarrow> bool" where
  "startswith s prefix \<longleftrightarrow> take (length prefix) s = prefix"

definition endswith :: "pystr \<Rightarrow> pystr \<Rightarrow> bool" where
  "endswith s suffix \<longleftrightarrow> length suffix \<le> length s \<and> drop (length s - length suffix) s = suffix"

definition check_sheetname ::
  "(pystr \<Rightarrow> pystr) \<Rightarrow> pystr \<Rightarrow> 'v workbook \<Rightarrow> error + pystr \<times> 'v workbook" where
  "check_sheetname lower sheetname book =
     (let book = book\<lparr>sheetname_count := sheetname_count book + 1\<rparr>;
          sheetname =
            (if sheetname = [] then lit ''Sheet'' @ dec_digits (sheetname_count book)
             else sheetname)
      in if 31 < length sheetname then Inl InvalidWorksheetName
         else if \<exists>c \<in> set sheetname. c \<in> set invalid_char then Inl InvalidWorksheetName
         else if startswith sheetname [39] \<or> endswith sheetname [39]
           then Inl InvalidWorksheetName
         else if \<exists>name \<in> set (sheet_names book). lower sheetname = lower name
           then Inl DuplicateWorksheetName
         else Inr (sheetname, book))"

definition add_worksheet ::
  "(pystr \<Rightarrow> pystr) \<Rightarrow> pystr \<Rightarrow> 'v workbook \<Rightarrow> error + pystr \<times> 'v workbook" where
  "add_worksheet lower name book =
     bindE (check_sheetname lower name book) (\<lambda>(name, book).
     Inr (name, book\<lparr>sheet_names := sheet_names book @ [name],
                      sheets := (sheets book)(name \<mapsto> new_worksheet)\<rparr>))"

text \<open>
  \<open>df.to_excel(writer, sheet_name=name)\<close>. A frame of more than \<open>max_rows\<close> rows or
  \<open>max_cols\<close> columns is refused with \<open>ValueError\<close>. Otherwise the frame is written to
  the sheet the workbook has under exactly that name, or, when it has none, to a sheet
  added for it. The column labels go to row 0 from column 1 on, and data row \<open>i\<close> to
  sheet row \<open>i + 1\<close>: its index label in column 0, its values from column 1 on. The
  engine ignores the cells whose row or column is beyond the sheet.
\<close>

definition max_rows :: nat where
  "max_rows = 1048576"

definition max_cols :: nat where
  "max_cols = 16384"

definition frame_cells :: "'v dataframe \<Rightarrow> ((nat \<times> nat) \<times> 'v) list" where
  "frame_cells df =
     map (\<lambda>(j, c). ((0, Suc j), c)) (enumerate 0 (df_columns df)) @
     concat (map (\<lambda>(i, label, vs).
                    ((Suc i, 0), label) # map (\<lambda>(j, v). ((Suc i, Suc j), v)) (enumerate 0 vs))
                 (enumerate 0 (zip (df_index df) (df_values df))))"

definition write_cell :: "(nat \<times> nat) \<times> 'v \<Rightarrow> (nat \<times> nat \<rightharpoonup> 'v) \<Rightarrow> (nat \<times> nat \<rightharpoonup> 'v)" where
  "write_cell = (\<lambda>((row, col), v) m.
     if xls_rowmax \<le> row \<or> xls_colmax \<le> col then m else m((row, col) \<mapsto> v))"

definition write_cells :: "((nat \<times> nat) \<times> 'v) list \<Rightarrow> 'v worksheet \<Rightarrow> 'v worksheet" where
  "write_cells kvs ws = ws\<lparr>cells := fold write_cell kvs (cells ws)\<rparr>"

definition to_excel ::
  "(pystr \<Rightarrow> pystr) \<Rightarrow> 'v dataframe \<Rightarrow> pystr \<Rightarrow> 'v workbook \<Rightarrow> error + 'v workbook" where
  "to_excel lower df sheet_name writer =
     (if max_rows < len_df df \<or> max_cols < length (df_columns df) then Inl ValueError
      else
        (case sheets writer sheet_name of
           Some wks \<Rightarrow>
             Inr (writer\<lparr>sheets :=
                    (sheets writer)(sheet_name \<mapsto> write_cells (frame_cells df) wks)\<rparr>)
         | None \<Rightarrow>
             bindE (add_worksheet lower sheet_name writer) (\<lambda>(wks_name, writer).
             Inr (writer\<lparr>sheets :=
                    (sheets writer)(wks_name \<mapsto>
                       write_cells (frame_cells df) new_worksheet)\<rparr>))))"

subsection \<open>The formats and the loops\<close>

definition data_format1 :: cell_format where
  "data_format1 = \<lparr>bg_color = Some ''#BBCCE2'', text_wrap = False\<rparr>"

definition data_format2 :: cell_format where
  "data_format2 = \<lparr>bg_color = Some ''#DEE6EF'', text_wrap = False\<rparr>"

definition format_header :: cell_format where
  "format_header = \<lparr>bg_color = None, text_wrap = True\<rparr>"

text \<open>\<open>range(start, stop, step)\<close> for a positive step, the only kind the module uses.\<close>

function py_range :: "nat \<Rightarrow> nat \<Rightarrow> nat \<Rightarrow> nat list" where
  "py_range start stop step =
     (if 0 < step \<and> start < stop then start # py_range (start + step) stop step else [])"
  by pat_completeness auto
termination
  by (relation "measure (\<lambda>(start, stop, step). stop - start)") auto

declare py_range.simps [simp del]

text \<open>The body of \<open>for row in range(1, len(df) + 1, 2)\<close> in \<open>generate_excel\<close>.\<close>

definition band_excel :: "nat \<Rightarrow> 'v worksheet \<Rightarrow> 'v worksheet" where
  "band_excel row worksheet =
     (let worksheet = set_row row None (Some data_format1) worksheet;
          worksheet = set_row (row + 1) None (Some data_format2) worksheet;
          worksheet = set_column 0 0 5 worksheet;
          worksheet = set_column 1 1 30 worksheet;
          worksheet = set_column 2 2 30 worksheet;
          worksheet = set_column 3 3 15 worksheet;
          worksheet = set_column 5 6 35 worksheet;
          worksheet = set_column 7 33 20 worksheet
      in worksheet)"

text \<open>The same body in \<open>generate_excel_effectiveness\<close>.\<close>

definition band_effectiveness :: "nat \<Rightarrow> 'v worksheet \<Rightarrow> 'v worksheet" where
  "band_effectiveness row worksheet =
     (let worksheet = set_row row None (Some data_format1) worksheet;
          worksheet = set_row (row + 1) None (Some data_format2) worksheet;
          worksheet = set_column 0 0 5 worksheet;
          worksheet = set_column 1 3 30 worksheet
      in worksheet)"

text \<open>
  The body of \<open>for df, name in zip(dataframe_list, sheet_name_list)\<close>: the frame is
  written, the sheet is fetched from the writer by the name given, which raises
  \<open>KeyError\<close> when the writer has no sheet under that name, its header row is set and
  its rows are banded. The worksheet is an object the writer holds, so what is done to it
  is done to the writer's sheet.
\<close>

definition sheet_excel ::
  "(pystr \<Rightarrow> pystr) \<Rightarrow> 'v dataframe \<times> pystr \<Rightarrow> 'v workbook \<Rightarrow> error + 'v workbook" where
  "sheet_excel lower = (\<lambda>(df, name) writer.
     bindE (to_excel lower df name writer) (\<lambda>writer.
     bindE (getitem (sheets writer) name) (\<lambda>worksheet.
     let worksheet = set_row 0 (Some 30) (Some format_header) worksheet;
         worksheet = fold band_excel (py_range 1 (len_df df + 1) 2) worksheet
     in Inr (writer\<lparr>sheets := (sheets writer)(name \<mapsto> worksheet)\<rparr>))))"

definition sheet_effectiveness ::
  "(pystr \<Rightarrow> pystr) \<Rightarrow> 'v dataframe \<times> pystr \<Rightarrow> 'v workbook \<Rightarrow> error + 'v workbook" where
  "sheet_effectiveness lower = (\<lambda>(df, name) writer.
     bindE (to_excel lower df name writer) (\<lambda>writer.
     bindE (getitem (sheets writer) name) (\<lambda>worksheet.
     let worksheet = set_row 0 (Some 20) (Some format_header) worksheet;
         worksheet = fold band_effectiveness (py_range 1 (len_df df + 1) 2) worksheet
     in Inr (writer\<lparr>sheets := (sheets writer)(name \<mapsto> worksheet)\<rparr>))))"

text \<open>A \<open>for\<close> loop whose body can raise: it stops at the first error.\<close>

fun foldE :: "('a \<Rightarrow> 's \<Rightarrow> error + 's) \<Rightarrow> 'a list \<Rightarrow> 's \<Rightarrow> error + 's" where
  "foldE f [] s = Inr s"
| "foldE f (x # xs) s = bindE (f x s) (foldE f xs)"

text \<open>
  \<open>writer.save()\<close> closes the workbook: a workbook without sheets is given one, of the
  default name, and the file is written.
\<close>

definition close_book :: "(pystr \<Rightarrow> pystr) \<Rightarrow> 'v workbook \<Rightarrow> error + 'v workbook" where
  "close_book lower book =
     (if sheet_names book = []
      then bindE (add_worksheet lower [] book) (\<lambda>(name, book). Inr book)
      else Inr book)"

subsection \<open>\<open>generate_excel\<close> and \<open>generate_excel_effectiveness\<close>\<close>

text \<open>
  Three things come from outside the module and are parameters here: \<open>lower\<close>, which is
  \<open>str.lower\<close>; \<open>save\<close>, the octets that the engine writes to the buffer for the
  workbook it has closed; and \<open>put_object\<close>, the storage client's operation, which takes
  the client, \<open>Bucket\<close>, \<open>Key\<close> and \<open>Body\<close> and gives the client afterwards or an
  error. \<open>bucket\<close>, \<open>filename\<close> and \<open>cos_client\<close> default to \<open>None\<close>. A result
  \<open>Inr (r, c)\<close> is a normal return of the value \<open>r\<close>, where \<open>None\<close> is Python's
  \<open>None\<close>, with the client left as \<open>c\<close>. \<open>excel_writer\<close> and \<open>effectiveness_writer\<close>
  are the writer as it is when \<open>writer.save()\<close> is reached.
\<close>

definition excel_writer ::
  "(pystr \<Rightarrow> pystr) \<Rightarrow> 'v dataframe list \<Rightarrow> pystr list \<Rightarrow> error + 'v workbook" where
  "excel_writer lower dataframe_list sheet_name_list =
     (let writer = new_workbook;
          writer = writer\<lparr>default_font_size := 15\<rparr>
      in foldE (sheet_excel lower) (zip dataframe_list sheet_name_list) writer)"

definition generate_excel ::
  "(pystr \<Rightarrow> pystr) \<Rightarrow> ('v workbook \<Rightarrow> pybytes) \<Rightarrow>
   ('c \<Rightarrow> pystr option \<Rightarrow> pystr option \<Rightarrow> pybytes \<Rightarrow> error + 'c) \<Rightarrow>
   'v dataframe list \<Rightarrow> pystr list \<Rightarrow> pystr option \<Rightarrow> pystr option \<Rightarrow> bool \<Rightarrow> 'c option \<Rightarrow>
   error + pybytes option \<times> 'c option" where
  "generate_excel lower save put_object dataframe_list sheet_name_list bucket filename upload
       cos_client =
     bindE (excel_writer lower dataframe_list sheet_name_list) (\<lambda>writer.
     bindE (close_book lower writer) (\<lambda>book.
     let output = save book in
     if upload then
       (case cos_client of
          None \<Rightarrow> Inl AttributeError
        | Some client \<Rightarrow>
            bindE (put_object client bucket filename output) (\<lambda>client'.
            Inr (None, Some client')))
     else Inr (None, cos_client)))"

definition effectiveness_writer ::
  "(pystr \<Rightarrow> pystr) \<Rightarrow> 'v dataframe list \<Rightarrow> pystr list \<Rightarrow> error + 'v workbook" where
  "effectiveness_writer lower dataframe_list sheet_name_list =
     (let writer = new_workbook;
          writer = writer\<lparr>default_font_size := 15\<rparr>
      in foldE (sheet_effectiveness lower) (zip dataframe_list sheet_name_list) writer)"

definition generate_excel_effectiveness ::
  "(pystr \<Rightarrow> pystr) \<Rightarrow> ('v workbook \<Rightarrow> pybytes) \<Rightarrow>
   ('c \<Rightarrow> pystr option \<Rightarrow> pystr option \<Rightarrow> pybytes \<Rightarrow> error + 'c) \<Rightarrow>
   'v dataframe list \<Rightarrow> pystr list \<Rightarrow> pystr option \<Rightarrow> pystr option \<Rightarrow> bool \<Rightarrow> 'c option \<Rightarrow>
   error + pybytes option \<times> 'c option" where
  "generate_excel_effectiveness lower save put_object dataframe_list sheet_name_list bucket
       filename upload cos_client =
     bindE (effectiveness_writer lower dataframe_list sheet_name_list) (\<lambda>writer.
     bindE (close_book lower writer) (\<lambda>book.
     let output = save book in
     if upload then
       (case cos_client of
          None \<Rightarrow> Inl AttributeError
        | Some client \<Rightarrow>
            bindE (put_object client bucket filename output) (\<lambda>client'.
            Inr (None, Some client')))
     else Inr (None, cos_client)))"

section \<open>Notions used to state the properties\<close>

text \<open>\<open>sep.join(parts)\<close>.\<close>

fun join :: "pystr \<Rightarrow> pystr list \<Rightarrow> pystr" where
  "join sep [] = []"
| "join sep [x] = x"
| "join sep (x # y # ys) = x @ sep @ join sep (y # ys)"

text \<open>\<open>s.split(c)\<close> for a separator of one character.\<close>

fun split_on :: "nat \<Rightarrow> pystr \<Rightarrow> pystr list" where
  "split_on c [] = [[]]"
| "split_on c (x # xs) =
     (if x = c then [] # split_on c xs
      else (case split_on c xs of [] \<Rightarrow> [[x]] | p # ps \<Rightarrow> (x # p) # ps))"

text \<open>The reserved characters of RFC 3986: \<open>:/?#[]@\<close> and \<open>!$&'()*+,;=\<close>.\<close>

definition reserved_chars :: pystr where
  "reserved_chars = lit '':/?#[]@!$&()*+,;='' @ [39]"

text \<open>The format a row of a named sheet has been given, and the cell at a position.\<close>

definition row_format :: "'v workbook \<Rightarrow> pystr \<Rightarrow> nat \<Rightarrow> cell_format option" where
  "row_format writer name r =
     (case sheets writer name of
        None \<Rightarrow> None
      | Some ws \<Rightarrow> (case row_info ws r of None \<Rightarrow> None | Some (height, fmt) \<Rightarrow> fmt))"

definition sheet_cell :: "'v workbook \<Rightarrow> pystr \<Rightarrow> nat \<times> nat \<Rightarrow> 'v option" where
  "sheet_cell writer name pos =
     (case sheets writer name of None \<Rightarrow> None | Some ws \<Rightarrow> cells ws pos)"

text \<open>
  A frame the writer takes, and a sheet name the engine takes when no sheet of the
  workbook has that name in another letter case.
\<close>

definition fits :: "'v dataframe \<Rightarrow> bool" where
  "fits df \<longleftrightarrow> len_df df \<le> max_rows \<and> length (df_columns df) \<le> max_cols"

definition valid_name :: "pystr \<Rightarrow> bool" where
  "valid_name name \<longleftrightarrow>
     name \<noteq> [] \<and> length name \<le> 31 \<and> (\<forall>c \<in> set name. c \<notin> set invalid_char) \<and>
     \<not> startswith name [39] \<and> \<not> endswith name [39]"

text \<open>
  The two loop bodies differ in the height of the header row and in the columns they
  widen; \<open>sheet_with\<close> is their common shape.
\<close>

definition sheet_with ::
  "(pystr \<Rightarrow> pystr) \<Rightarrow> nat \<Rightarrow> (nat \<Rightarrow> 'v worksheet \<Rightarrow> 'v worksheet) \<Rightarrow> 'v dataframe \<times> pystr \<Rightarrow>
   'v workbook \<Rightarrow> error + 'v workbook" where
  "sheet_with lower header_height band = (\<lambda>(df, name) writer.
     bindE (to_excel lower df name writer) (\<lambda>writer.
     bindE (getitem (sheets writer) name) (\<lambda>worksheet.
     let worksheet = set_row 0 (Some header_height) (Some format_header) worksheet;
         worksheet = fold band (py_range 1 (len_df df + 1) 2) worksheet
     in Inr (writer\<lparr>sheets := (sheets writer)(name \<mapsto> worksheet)\<rparr>))))"

text \<open>
  What the proofs use of a loop body: it sets the format of its row and of the next row
  as the two \<open>set_row\<close> calls do, and writes no cell. \<open>band_format\<close> is the format a
  banded row has, and \<open>last_banded n\<close> the last row the loop reaches for a frame of \<open>n\<close>
  rows.
\<close>

definition is_band :: "(nat \<Rightarrow> 'v worksheet \<Rightarrow> 'v worksheet) \<Rightarrow> bool" where
  "is_band band \<longleftrightarrow>
     (\<forall>row ws.
        row_info (band row ws) =
          row_info (set_row (row + 1) None (Some data_format2)
                     (set_row row None (Some data_format1) ws)) \<and>
        cells (band row ws) = cells ws)"

definition band_format :: "nat \<Rightarrow> cell_format" where
  "band_format r = (if odd r then data_format1 else data_format2)"

definition last_banded :: "nat \<Rightarrow> nat" where
  "last_banded n = (if odd n then n + 1 else n)"

text \<open>Inputs for the examples. \<open>ascii_lower\<close> is \<open>str.lower\<close> on ASCII strings.\<close>

definition example_time :: datetime where
  "example_time =
     \<lparr>year = 2024, month = 3, day = 7, hour = 9, minute = 5, second = 2, microsecond = 0\<rparr>"

definition example_clock :: "nat \<Rightarrow> datetime \<times> nat" where
  "example_clock w = (example_time \<lparr>microsecond := w\<rparr>, Suc w)"

definition example_credentials :: "pystr \<rightharpoonup> pystr" where
  "example_credentials =
     [lit ''host'' \<mapsto> lit ''s3.example.net'', lit ''access_key_id'' \<mapsto> lit ''AK/ID 1'',
      lit ''BUCKET'' \<mapsto> lit ''reports'', lit ''secret_access_key'' \<mapsto> lit ''secret'']"

definition amp_credentials :: "pystr \<rightharpoonup> pystr" where
  "amp_credentials =
     [lit ''host'' \<mapsto> lit ''s3.example.net'',
      lit ''access_key_id'' \<mapsto> lit ''AK&X-Amz-Expires=999999&X-Amz-Credential=x'',
      lit ''BUCKET'' \<mapsto> lit ''reports'', lit ''secret_access_key'' \<mapsto> lit ''secret'']"

definition ascii_lower :: "pystr \<Rightarrow> pystr" where
  "ascii_lower s = map (\<lambda>c. if 65 \<le> c \<and> c \<le> 90 then c + 32 else c) s"

definition example_frame :: "nat \<Rightarrow> nat dataframe" where
  "example_frame n =
     \<lparr>df_columns = [0, 1], df_index = [0..<n], df_values = map (\<lambda>i. [i, 2 * i]) [0..<n]\<rparr>"

definition example_save :: "nat workbook \<Rightarrow> pybytes" where
  "example_save writer = [0x50, 0x4B]"

definition example_put_object ::
  "pybytes list \<Rightarrow> pystr option \<Rightarrow> pystr option \<Rightarrow> pybytes \<Rightarrow> error + pybytes list" where
  "example_put_object client bucket key body = Inr (client @ [body])"

section \<open>A test vector\<close>

text \<open>
  The digest of \<open>abc\<close> given in FIPS 180-4, computed in steps: the padded block, its
  message schedule, the 64 rounds, the final addition.
\<close>

lemma sha_pad_abc:
  "blocks64 (sha_pad [0x61, 0x62, 0x63]) = [[0x61, 0x62, 0x63, 0x80] @ replicate 59 0 @ [0x18]]"
  by code_simp

lemma be_words_abc:
  "be_words ([0x61, 0x62, 0x63, 0x80] @ replicate 59 0 @ [0x18]) =
     [1633837952, 0, 0, 0, 0, 0, 0, 0, 0, 0, 0, 0, 0, 0, 0, 24]"
  by code_simp

lemma schedule_numeral:
  "schedule (numeral k) W =
     schedule (pred_numeral k)
       (W @ [ssig1 (W ! (length W - 2)) + W ! (length W - 7) + ssig0 (W ! (length W - 15)) +
             W ! (length W - 16)])"
  by (simp add: numeral_eq_Suc Let_def)

lemma schedule_abc:
  "schedule 48 [1633837952, 0, 0, 0, 0, 0, 0, 0, 0, 0, 0, 0, 0, 0, 0, 24] =
       [1633837952, 0, 0, 0, 0, 0, 0, 0, 0, 0, 0, 0, 0, 0, 0, 24, 1633837952, 983040,
       2108187653, 1610613702, 1050508152, 25426944, 316456923, 3806512014, 3357629466,
       3073800610, 3854317833, 845560923, 2636160359, 3968280267, 1881225380, 3552024379,
       2482346367, 996719219, 2952069057, 4043988066, 176896406, 1924104970, 2483675966,
       610538786, 2672279444, 4037431130, 1042573945, 657669027, 206005234, 2215296807,
       2049510749, 106709978, 4215179723, 3430291419, 3118885940, 2845390439, 2226839261,
       3256115900, 344409900, 2987358873, 4015503821, 3957764664, 2682456414, 2025622859,
       2755645205, 1720397816, 4004225740, 313650667]"
  by (simp add: schedule_numeral Let_def ssig0_def ssig1_def rotr_def)

lemma rounds_abc:
  "fold sha_round (zip K256
       [1633837952, 0, 0, 0, 0, 0, 0, 0, 0, 0, 0, 0, 0, 0, 0, 24, 1633837952, 983040,
       2108187653, 1610613702, 1050508152, 25426944, 316456923, 3806512014, 3357629466,
       3073800610, 3854317833, 845560923, 2636160359, 3968280267, 1881225380, 3552024379,
       2482346367, 996719219, 2952069057, 4043988066, 176896406, 1924104970, 2483675966,
       610538786, 2672279444, 4037431130, 1042573945, 657669027, 206005234, 2215296807,
       2049510749, 106709978, 4215179723, 3430291419, 3118885940, 2845390439, 2226839261,
       3256115900, 344409900, 2987358873, 4015503821, 3957764664, 2682456414, 2025622859,
       2755645205, 1720397816, 4004225740, 313650667]) H256 =
     (1349398616, 3550093669, 80891244, 3093179625, 1593118500, 4212265488, 2492278198, 2518632596)"
  by code_simp

lemma sha256_abc:
  "sha256 [0x61, 0x62, 0x63] =
     [0xBA, 0x78, 0x16, 0xBF, 0x8F, 0x01, 0xCF, 0xEA, 0x41, 0x41, 0x40, 0xDE, 0x5D, 0xAE, 0x22,
      0x23, 0xB0, 0x03, 0x61, 0xA3, 0x96, 0x17, 0x7A, 0x9C, 0xB4, 0x10, 0xFF, 0x61, 0xF2, 0x00,
      0x15, 0xAD]"
  by (simp only: sha256_def sha_pad_abc fold.simps id_apply o_apply compress_def be_words_abc
      schedule_abc rounds_abc)
    (simp add: H256_def be32_def)

section \<open>Properties of the signing key\<close>

lemma bindE_simps [simp]:
  "bindE (Inl e) f = Inl e"
  "bindE (Inr x) f = f x"
  by (simp_all add: bindE_def)

lemma length_be32 [simp]: "length (be32 w) = 4"
  by (simp add: be32_def)

lemma length_hstate_bytes [simp]: "length (hstate_bytes H) = 32"
  by (induction H rule: hstate_bytes.induct) simp

lemma length_sha256 [simp]: "length (sha256 m) = 32"
  by (simp add: sha256_def)

lemma length_hmac_sha256 [simp]: "length (hmac_sha256 key msg) = 32"
  by (simp add: hmac_sha256_def Let_def)

lemma encode_utf8_append:
  "encode_utf8 xs = Inr a \<Longrightarrow> encode_utf8 ys = Inr b \<Longrightarrow> encode_utf8 (xs @ ys) = Inr (a @ b)"
  by (induction xs arbitrary: a) (auto split: option.splits sum.splits simp: bindE_def)

lemma encode_utf8_lit_AWS4: "encode_utf8 (lit ''AWS4'') = Inr [0x41, 0x57, 0x53, 0x34]"
  by (simp add: lit_def utf8_cp_def)

lemma encode_utf8_lit_aws4_request:
  "encode_utf8 (lit ''aws4_request'') =
     Inr [0x61, 0x77, 0x73, 0x34, 0x5F, 0x72, 0x65, 0x71, 0x75, 0x65, 0x73, 0x74]"
  by (simp add: lit_def utf8_cp_def)

text \<open>
  C1. Whenever the secret, the datestamp, the region and the service can be encoded as
  UTF-8, \<open>create_signature_key\<close> returns the 32 octets of the chain of four keyed hashes:
  \<open>k_date\<close> is the HMAC-SHA256 of the encoded datestamp under the encoding of
  \<open>'AWS4' + secret\<close>, \<open>k_region\<close> that of the region under \<open>k_date\<close>, \<open>k_service\<close> that of
  the service under \<open>k_region\<close>, and the result that of \<open>'aws4_request'\<close> under
  \<open>k_service\<close>.
\<close>

theorem create_signature_key_chain:
  assumes "encode_utf8 secret = Inr sb" and "encode_utf8 datestamp = Inr db"
    and "encode_utf8 region = Inr rb" and "encode_utf8 service = Inr vb"
  shows "\<exists>kb tb k_date k_region k_service k_signing.
           encode_utf8 (lit ''AWS4'' @ secret) = Inr kb \<and>
           encode_utf8 (lit ''aws4_request'') = Inr tb \<and>
           k_date = hmac_sha256 kb db \<and>
           k_region = hmac_sha256 k_date rb \<and>
           k_service = hmac_sha256 k_region vb \<and>
           k_signing = hmac_sha256 k_service tb \<and>
           create_signature_key secret datestamp region service = Inr k_signing \<and>
           length k_signing = 32"
proof -
  from encode_utf8_append [OF encode_utf8_lit_AWS4 assms(1)]
  have kb: "encode_utf8 (lit ''AWS4'' @ secret) = Inr ([0x41, 0x57, 0x53, 0x34] @ sb)" .
  show ?thesis
    using assms(2-4)
    by (simp only: kb encode_utf8_lit_aws4_request create_signature_key_def get_hash_def
        bindE_simps length_hmac_sha256 simp_thms ex_simps) simp
qed

theorem create_signature_key_chain_witness:
  "\<exists>kb tb. encode_utf8 (lit ''AWS4'' @ lit ''wJalrXUtnFEMI/K7MDENG+bPxRfiCYEXAMPLEKEY'') = Inr kb \<and>
     encode_utf8 (lit ''aws4_request'') = Inr tb \<and>
     create_signature_key (lit ''wJalrXUtnFEMI/K7MDENG+bPxRfiCYEXAMPLEKEY'') (lit ''20120215'')
        (lit ''us-east-1'') (lit ''iam'')
       = Inr (hmac_sha256 (hmac_sha256 (hmac_sha256 (hmac_sha256 kb
            [0x32, 0x30, 0x31, 0x32, 0x30, 0x32, 0x31, 0x35])
            [0x75, 0x73, 0x2D, 0x65, 0x61, 0x73, 0x74, 0x2D, 0x31]) [0x69, 0x61, 0x6D]) tb)"
proof -
  have s: "encode_utf8 (lit ''wJalrXUtnFEMI/K7MDENG+bPxRfiCYEXAMPLEKEY'') =
      Inr (map of_nat (lit ''wJalrXUtnFEMI/K7MDENG+bPxRfiCYEXAMPLEKEY''))"
    by (simp add: lit_def utf8_cp_def)
  have d: "encode_utf8 (lit ''20120215'') = Inr [0x32, 0x30, 0x31, 0x32, 0x30, 0x32, 0x31, 0x35]"
    by (simp add: lit_def utf8_cp_def)
  have r: "encode_utf8 (lit ''us-east-1'') =
      Inr [0x75, 0x73, 0x2D, 0x65, 0x61, 0x73, 0x74, 0x2D, 0x31]"
    by (simp add: lit_def utf8_cp_def)
  have v: "encode_utf8 (lit ''iam'') = Inr [0x69, 0x61, 0x6D]"
    by (simp add: lit_def utf8_cp_def)
  from create_signature_key_chain [OF s d r v] show ?thesis by blast
qed

section \<open>Properties of the presigned link\<close>

subsection \<open>Encodings of the strings the link is built from\<close>

lemma lit_Nil [simp]: "lit [] = []"
  by (simp add: lit_def)

lemma encode_utf8_append_eq:
  "encode_utf8 (xs @ ys) =
     bindE (encode_utf8 xs) (\<lambda>a. bindE (encode_utf8 ys) (\<lambda>b. Inr (a @ b)))"
  by (induction xs) (auto split: option.splits sum.splits simp: bindE_def)

lemma encode_utf8_ascii:
  "list_all (\<lambda>c. c < 128) s \<Longrightarrow> encode_utf8 s = Inr (map of_nat s)"
  by (induction s) (auto simp: utf8_cp_def)

lemma encode_utf8_Inl: "encode_utf8 s = Inl e \<Longrightarrow> e = UnicodeEncodeError"
  by (induction s arbitrary: e) (auto simp: bindE_def split: option.splits sum.splits)

lemma ascii_dec_digits: "list_all (\<lambda>c. c < 128) (dec_digits n)"
proof (induction n rule: dec_digits.induct)
  case (1 n)
  show ?case
  proof (cases "n < 10")
    case True
    then show ?thesis by (subst dec_digits.simps) simp
  next
    case False
    with 1 show ?thesis by (subst dec_digits.simps) simp
  qed
qed

lemma ascii_zero_pad: "list_all (\<lambda>c. c < 128) (zero_pad w n)"
  using ascii_dec_digits [of n] by (auto simp: zero_pad_def Let_def list_all_iff)

lemma ascii_int_text: "list_all (\<lambda>c. c < 128) (int_text i)"
  by (simp add: int_text_def ascii_dec_digits)

lemma ascii_timestamp: "list_all (\<lambda>c. c < 128) (strftime_timestamp t)"
  by (simp add: strftime_timestamp_def ascii_zero_pad lit_def)

lemma ascii_datestamp: "list_all (\<lambda>c. c < 128) (strftime_datestamp t)"
  by (simp add: strftime_datestamp_def ascii_zero_pad)

lemma hex_digit_mem: "n < length A \<Longrightarrow> hex_digit A n \<in> set (lit A)"
  by (simp add: hex_digit_def lit_def)

lemma hex_digit_lower_ascii: "n < 16 \<Longrightarrow> hex_digit ''0123456789abcdef'' n < 128"
  using hex_digit_mem [of n "''0123456789abcdef''"] by (auto simp: lit_def)

lemma hex_digit_upper_ascii: "n < 16 \<Longrightarrow> hex_digit ''0123456789ABCDEF'' n < 128"
  using hex_digit_mem [of n "''0123456789ABCDEF''"] by (auto simp: lit_def)

lemma unat_byte_less: "unat (b :: byte) < 256"
proof -
  have "unat b < 2 ^ LENGTH(8)" by (rule unsigned_less)
  then show ?thesis by simp
qed

lemma unat_byte_div16: "unat (b :: byte) div 16 < 16"
  using unat_byte_less [of b] by simp

lemma ascii_hex_lower: "list_all (\<lambda>c. c < 128) (hex_lower bs)"
  by (induction bs) (simp_all add: hex_lower_def hex_digit_lower_ascii unat_byte_div16)

lemma ascii_hex_upper: "list_all (\<lambda>c. c < 128) (hex_upper b)"
  by (simp add: hex_upper_def hex_digit_upper_ascii unat_byte_div16)

lemma ascii_always_safe: "list_all (\<lambda>c. c < 128) always_safe"
  by (simp add: always_safe_def lit_def)

lemma ascii_quote_byte: "list_all (\<lambda>c. c < 128) (quote_byte safe b)"
  using ascii_always_safe ascii_hex_upper [of b]
  by (auto simp: quote_byte_def list_all_iff)

lemma ascii_quote: "quote s safe = Inr r \<Longrightarrow> list_all (\<lambda>c. c < 128) r"
  using ascii_quote_byte
  by (auto simp: quote_def bindE_def list_all_iff split: sum.splits)

lemma not_isl_obtain: "\<not> isl m \<Longrightarrow> \<exists>x. m = Inr x"
  by (cases m) simp_all

lemma isl_encode_utf8_append:
  "isl (encode_utf8 (xs @ ys)) \<longleftrightarrow> isl (encode_utf8 xs) \<or> isl (encode_utf8 ys)"
  by (simp add: encode_utf8_append_eq bindE_def split: sum.splits)

lemma isl_encode_utf8_Cons:
  "isl (encode_utf8 (c # cs)) \<longleftrightarrow> utf8_cp c = None \<or> isl (encode_utf8 cs)"
  by (simp add: bindE_def split: option.splits sum.splits)

lemma utf8_cp_newline [simp]: "utf8_cp 10 = Some [10]"
  by (simp add: utf8_cp_def)

lemma not_isl_encode_utf8_ascii: "list_all (\<lambda>c. c < 128) s \<Longrightarrow> \<not> isl (encode_utf8 s)"
  by (simp add: encode_utf8_ascii)

lemma isl_quote: "isl (quote s safe) \<longleftrightarrow> isl (encode_utf8 s)"
  by (simp add: quote_def bindE_def split: sum.splits)

lemma quote_Inl: "quote s safe = Inl e \<Longrightarrow> e = UnicodeEncodeError"
  by (auto simp: quote_def bindE_def split: sum.splits dest: encode_utf8_Inl)

lemma not_isl_encode_utf8_lit [simp]:
  "\<not> isl (encode_utf8 (lit ''X-Amz-Algorithm=AWS4-HMAC-SHA256''))"
  "\<not> isl (encode_utf8 (lit ''&X-Amz-Credential=''))"
  "\<not> isl (encode_utf8 (lit ''/''))"
  "\<not> isl (encode_utf8 (lit ''/s3/aws4_request''))"
  "\<not> isl (encode_utf8 (lit ''&X-Amz-Date=''))"
  "\<not> isl (encode_utf8 (lit ''&X-Amz-Expires=''))"
  "\<not> isl (encode_utf8 (lit ''&X-Amz-SignedHeaders=host''))"
  "\<not> isl (encode_utf8 (lit ''GET''))"
  "\<not> isl (encode_utf8 (lit ''host:''))"
  "\<not> isl (encode_utf8 (lit ''host''))"
  "\<not> isl (encode_utf8 (lit ''UNSIGNED-PAYLOAD''))"
  "\<not> isl (encode_utf8 (lit ''AWS4-HMAC-SHA256''))"
  "\<not> isl (encode_utf8 (lit ''s3''))"
  "\<not> isl (encode_utf8 (lit ''aws4_request''))"
  "\<not> isl (encode_utf8 (lit ''AWS4''))"
  "\<not> isl (encode_utf8 [10])"
  by (simp_all add: lit_def utf8_cp_def)

lemma not_isl_encode_utf8_computed [simp]:
  "\<not> isl (encode_utf8 (strftime_timestamp t))"
  "\<not> isl (encode_utf8 (strftime_datestamp t))"
  "\<not> isl (encode_utf8 (int_text i))"
  "\<not> isl (encode_utf8 (hex_lower bs))"
  by (simp_all add: not_isl_encode_utf8_ascii ascii_timestamp ascii_datestamp ascii_int_text
      ascii_hex_lower)

lemma not_isl_encode_utf8_quote: "quote s safe = Inr r \<Longrightarrow> \<not> isl (encode_utf8 r)"
  by (rule not_isl_encode_utf8_ascii) (rule ascii_quote)

lemma create_signature_key_eq:
  "create_signature_key key datestamp region service =
     bindE (encode_utf8 key) (\<lambda>kb.
     bindE (encode_utf8 datestamp) (\<lambda>db.
     bindE (encode_utf8 region) (\<lambda>rb.
     bindE (encode_utf8 service) (\<lambda>vb.
     Inr (hmac_sha256 (hmac_sha256 (hmac_sha256 (hmac_sha256 ([0x41, 0x57, 0x53, 0x34] @ kb) db)
            rb) vb) [0x61, 0x77, 0x73, 0x34, 0x5F, 0x72, 0x65, 0x71, 0x75, 0x65, 0x73, 0x74])))))"
  by (simp add: create_signature_key_def get_hash_def encode_utf8_append_eq encode_utf8_lit_AWS4
      encode_utf8_lit_aws4_request bindE_def split: sum.splits)

lemma isl_create_signature_key:
  "isl (create_signature_key key datestamp region service) \<longleftrightarrow>
     isl (encode_utf8 key) \<or> isl (encode_utf8 datestamp) \<or> isl (encode_utf8 region) \<or>
     isl (encode_utf8 service)"
  by (simp add: create_signature_key_eq bindE_def split: sum.splits)

lemma create_signature_key_Inl:
  "create_signature_key key d r s = Inl e \<Longrightarrow> e = UnicodeEncodeError"
  by (auto simp: create_signature_key_eq bindE_def split: sum.splits dest: encode_utf8_Inl)

subsection \<open>Successful and failing runs\<close>

text \<open>
  A run that returns a URL has found the four credentials, and the URL is built from the
  encoded query string, the digest of the request and the signature as follows.
\<close>

lemma generate_link_Inr:
  assumes "generate_link cur_time filename credentials expiration = Inr url"
  shows "\<exists>host access_key_id bucket secret qs request_bytes signature_key sts_bytes.
     credentials (lit ''host'') = Some host \<and>
     credentials (lit ''access_key_id'') = Some access_key_id \<and>
     credentials (lit ''BUCKET'') = Some bucket \<and>
     credentials (lit ''secret_access_key'') = Some secret \<and>
     quote (lit ''X-Amz-Algorithm=AWS4-HMAC-SHA256'' @
            lit ''&X-Amz-Credential='' @ access_key_id @ lit ''/'' @
              strftime_datestamp cur_time @ lit ''/'' @ lit ''/s3/aws4_request'' @
            lit ''&X-Amz-Date='' @ strftime_timestamp cur_time @
            lit ''&X-Amz-Expires='' @ int_text expiration @
            lit ''&X-Amz-SignedHeaders=host'') (lit ''&='') = Inr qs \<and>
     encode_utf8 (lit ''GET'' @ [10] @ (lit ''/'' @ bucket @ lit ''/'' @ filename) @ [10] @
                  qs @ [10] @ (lit ''host:'' @ host) @ [10] @ [10] @ lit ''host'' @ [10] @
                  lit ''UNSIGNED-PAYLOAD'') = Inr request_bytes \<and>
     encode_utf8 (lit ''AWS4-HMAC-SHA256'' @ [10] @ strftime_timestamp cur_time @ [10] @
                  (strftime_datestamp cur_time @ lit ''/'' @ lit ''/'' @ lit ''s3'' @ lit ''/'' @
                   lit ''aws4_request'') @ [10] @
                  hex_lower (sha256 request_bytes)) = Inr sts_bytes \<and>
     create_signature_key secret (strftime_datestamp cur_time) [] (lit ''s3'') = Inr signature_key \<and>
     url = (lit ''https://'' @ host) @ lit ''/'' @ bucket @ lit ''/'' @ filename @ lit ''?'' @ qs @
           lit ''&X-Amz-Signature='' @ hex_lower (hmac_sha256 signature_key sts_bytes)"
  using assms
  by (auto simp: generate_link_def Let_def getitem_def bindE_def str_int_def
      split: option.splits sum.splits if_splits)

lemma dec_digits_length: "n < 10 ^ k \<Longrightarrow> 0 < k \<Longrightarrow> length (dec_digits n) \<le> k"
proof (induction n arbitrary: k rule: dec_digits.induct)
  case (1 n)
  show ?case
  proof (cases "n < 10")
    case True
    with "1.prems" show ?thesis by (subst dec_digits.simps) simp
  next
    case False
    with "1.prems" obtain j where k: "k = Suc j" and j: "0 < j"
      by (cases k; cases "k - 1"; simp)
    from "1.prems"(1) k have "n div 10 < 10 ^ j"
      by (simp add: less_mult_imp_div_less mult.commute)
    with "1.IH" [OF False this j] False k show ?thesis
      by (subst dec_digits.simps) simp
  qed
qed

lemma str_int_Inr: "\<bar>i\<bar> < 10 ^ int_max_str_digits \<Longrightarrow> str_int i = Inr (int_text i)"
proof -
  assume "\<bar>i\<bar> < 10 ^ int_max_str_digits"
  then have "nat \<bar>i\<bar> < 10 ^ int_max_str_digits"
    by (metis nat_less_iff abs_ge_zero of_nat_numeral of_nat_power)
  then have "length (dec_digits (nat \<bar>i\<bar>)) \<le> int_max_str_digits"
    by (rule dec_digits_length) (simp add: int_max_str_digits_def)
  then show ?thesis by (simp add: str_int_def)
qed

lemma small_abs: "\<bar>i\<bar> < 10 ^ 4 \<Longrightarrow> \<bar>i :: int\<bar> < 10 ^ int_max_str_digits"
proof -
  assume "\<bar>i\<bar> < 10 ^ 4"
  moreover have "(10 :: int) ^ 4 \<le> 10 ^ int_max_str_digits"
    by (rule power_increasing) (simp_all add: int_max_str_digits_def)
  ultimately show ?thesis by linarith
qed

lemma small_pos: "0 \<le> i \<Longrightarrow> i < 10 ^ 4 \<Longrightarrow> i < (10 :: int) ^ int_max_str_digits"
  using small_abs [of i] by simp

lemma generate_link_succeeds:
  assumes host: "credentials (lit ''host'') = Some host"
    and akid: "credentials (lit ''access_key_id'') = Some access_key_id"
    and bucket: "credentials (lit ''BUCKET'') = Some bucket"
    and secret: "credentials (lit ''secret_access_key'') = Some secret"
    and enc: "\<not> isl (encode_utf8 host)" "\<not> isl (encode_utf8 access_key_id)"
      "\<not> isl (encode_utf8 bucket)" "\<not> isl (encode_utf8 secret)"
      "\<not> isl (encode_utf8 filename)"
    and small: "\<bar>expiration\<bar> < 10 ^ int_max_str_digits"
  shows "\<not> isl (generate_link cur_time filename credentials expiration)"
proof -
  let ?ds = "strftime_datestamp cur_time" and ?ts = "strftime_timestamp cur_time"
  let ?sq = "lit ''X-Amz-Algorithm=AWS4-HMAC-SHA256'' @ lit ''&X-Amz-Credential='' @
      access_key_id @ lit ''/'' @ ?ds @ lit ''/'' @ lit ''/s3/aws4_request'' @
      lit ''&X-Amz-Date='' @ ?ts @ lit ''&X-Amz-Expires='' @ int_text expiration @
      lit ''&X-Amz-SignedHeaders=host''"
  have "\<not> isl (quote ?sq (lit ''&=''))"
    by (simp add: isl_quote isl_encode_utf8_append enc)
  then obtain qs where qs: "quote ?sq (lit ''&='') = Inr qs"
    using not_isl_obtain by blast
  let ?req = "lit ''GET'' @ [10] @ (lit ''/'' @ bucket @ lit ''/'' @ filename) @ [10] @
      qs @ [10] @ (lit ''host:'' @ host) @ [10] @ [10] @ lit ''host'' @ [10] @
      lit ''UNSIGNED-PAYLOAD''"
  have "\<not> isl (encode_utf8 ?req)"
    using not_isl_encode_utf8_quote [OF qs]
    by (simp add: isl_encode_utf8_append isl_encode_utf8_Cons enc del: encode_utf8.simps)
  then obtain rb where rb: "encode_utf8 ?req = Inr rb"
    using not_isl_obtain by blast
  let ?sts = "lit ''AWS4-HMAC-SHA256'' @ [10] @ ?ts @ [10] @
      (?ds @ lit ''/'' @ lit ''/'' @ lit ''s3'' @ lit ''/'' @ lit ''aws4_request'') @ [10] @
      hex_lower (sha256 rb)"
  have "\<not> isl (encode_utf8 ?sts)"
    by (simp add: isl_encode_utf8_append isl_encode_utf8_Cons del: encode_utf8.simps)
  then obtain sb where sb: "encode_utf8 ?sts = Inr sb"
    using not_isl_obtain by blast
  have "\<not> isl (create_signature_key secret ?ds [] (lit ''s3''))"
    by (simp add: isl_create_signature_key enc)
  then obtain sk where sk: "create_signature_key secret ?ds [] (lit ''s3'') = Inr sk"
    using not_isl_obtain by blast
  from qs rb sb sk show ?thesis
    by (simp add: generate_link_def Let_def getitem_def host akid bucket secret
        str_int_Inr [OF small])
qed

lemma generate_link_Inl:
  assumes "generate_link cur_time filename credentials expiration = Inl e"
  shows "e = UnicodeEncodeError \<or> e = ValueError \<or>
    (\<exists>k \<in> {lit ''host'', lit ''access_key_id'', lit ''BUCKET'', lit ''secret_access_key''}.
       e = KeyError k \<and> credentials k = None)"
  using assms
  by (auto simp: generate_link_def Let_def getitem_def bindE_def str_int_def
      split: option.splits sum.splits if_splits
      dest: encode_utf8_Inl quote_Inl create_signature_key_Inl)

subsection \<open>The encoded query string\<close>

lemma quote_append:
  "quote (xs @ ys) safe = bindE (quote xs safe) (\<lambda>a. bindE (quote ys safe) (\<lambda>b. Inr (a @ b)))"
  by (simp add: quote_def encode_utf8_append_eq bindE_def split: sum.splits)

lemma unat_of_nat_byte: "c < 256 \<Longrightarrow> unat (of_nat c :: byte) = c"
  by (simp add: unat_of_nat)

lemma safe_set_ascii: "c \<in> set (always_safe @ lit ''&='') \<Longrightarrow> c < 128"
  by (auto simp: always_safe_def lit_def)

lemma quote_byte_safe:
  "c \<in> set (always_safe @ lit ''&='') \<Longrightarrow> quote_byte (lit ''&='') (of_nat c) = [c]"
proof -
  assume a: "c \<in> set (always_safe @ lit ''&='')"
  then have "c < 128" by (rule safe_set_ascii)
  then have u: "unat (of_nat c :: byte) = c" by (simp add: unat_of_nat_byte)
  have "filter (\<lambda>c. c < 128) (lit ''&='') = lit ''&=''" by (simp add: lit_def)
  with a u show ?thesis by (simp add: quote_byte_def)
qed

lemma quote_safe:
  "\<forall>c\<in>set s. c \<in> set (always_safe @ lit ''&='') \<Longrightarrow> quote s (lit ''&='') = Inr s"
proof (induction s)
  case Nil
  show ?case by (simp add: quote_def)
next
  case (Cons c s)
  then have c: "c \<in> set (always_safe @ lit ''&='')" and s: "quote s (lit ''&='') = Inr s"
    by simp_all
  from c have "c < 128" by (rule safe_set_ascii)
  then have "utf8_cp c = Some [of_nat c]" by (simp add: utf8_cp_def)
  with s quote_byte_safe [OF c] show ?case
    by (auto simp: quote_def bindE_def split: sum.splits)
qed

lemma dec_digits_set: "set (dec_digits n) \<subseteq> set (lit ''0123456789'')"
proof (induction n rule: dec_digits.induct)
  case (1 n)
  have d: "48 + m \<in> set (lit ''0123456789'')" if "m < 10" for m
  proof -
    from that have "m = 0 \<or> m = 1 \<or> m = 2 \<or> m = 3 \<or> m = 4 \<or> m = 5 \<or> m = 6 \<or> m = 7 \<or>
        m = 8 \<or> m = 9" by presburger
    then show ?thesis by (auto simp: lit_def)
  qed
  show ?case
  proof (cases "n < 10")
    case True
    then show ?thesis by (subst dec_digits.simps) (simp add: d)
  next
    case False
    with 1 have "set (dec_digits (n div 10)) \<subseteq> set (lit ''0123456789'')" by simp
    moreover have "48 + n mod 10 \<in> set (lit ''0123456789'')" by (rule d) simp
    ultimately show ?thesis using False by (subst dec_digits.simps) simp
  qed
qed

lemma digits_safe: "set (lit ''0123456789'') \<subseteq> set (always_safe @ lit ''&='')"
  by (simp add: lit_def always_safe_def)

lemma quote_zero_pad: "quote (zero_pad w n) (lit ''&='') = Inr (zero_pad w n)"
proof (rule quote_safe)
  have "48 \<in> set (always_safe @ lit ''&='')" by (simp add: always_safe_def lit_def)
  with dec_digits_set [of n] digits_safe
  show "\<forall>c\<in>set (zero_pad w n). c \<in> set (always_safe @ lit ''&='')"
    by (auto simp: zero_pad_def Let_def)
qed

lemma quote_int_text [simp]: "quote (int_text i) (lit ''&='') = Inr (int_text i)"
proof (rule quote_safe)
  have "45 \<in> set (always_safe @ lit ''&='')" by (simp add: always_safe_def lit_def)
  with dec_digits_set digits_safe
  show "\<forall>c\<in>set (int_text i). c \<in> set (always_safe @ lit ''&='')"
    by (auto simp: int_text_def)
qed

lemma quote_strftime [simp]:
  "quote (strftime_timestamp t) (lit ''&='') = Inr (strftime_timestamp t)"
  "quote (strftime_datestamp t) (lit ''&='') = Inr (strftime_datestamp t)"
proof -
  have l: "quote (lit ''T'') (lit ''&='') = Inr (lit ''T'')"
    "quote (lit ''Z'') (lit ''&='') = Inr (lit ''Z'')"
    by (rule quote_safe, simp add: lit_def always_safe_def)+
  show "quote (strftime_timestamp t) (lit ''&='') = Inr (strftime_timestamp t)"
    by (simp add: strftime_timestamp_def quote_append quote_zero_pad l)
  show "quote (strftime_datestamp t) (lit ''&='') = Inr (strftime_datestamp t)"
    by (simp add: strftime_datestamp_def quote_append quote_zero_pad)
qed

lemma quote_lits [simp]:
  "quote (lit ''X-Amz-Algorithm=AWS4-HMAC-SHA256'') (lit ''&='') =
     Inr (lit ''X-Amz-Algorithm=AWS4-HMAC-SHA256'')"
  "quote (lit ''&X-Amz-Credential='') (lit ''&='') = Inr (lit ''&X-Amz-Credential='')"
  "quote (lit ''&X-Amz-Date='') (lit ''&='') = Inr (lit ''&X-Amz-Date='')"
  "quote (lit ''&X-Amz-Expires='') (lit ''&='') = Inr (lit ''&X-Amz-Expires='')"
  "quote (lit ''&X-Amz-SignedHeaders=host'') (lit ''&='') = Inr (lit ''&X-Amz-SignedHeaders=host'')"
  by (rule quote_safe, simp add: lit_def always_safe_def)+

lemma quote_slashes [simp]:
  "quote (lit ''/'') (lit ''&='') = Inr (lit ''%2F'')"
  "quote (lit ''/s3/aws4_request'') (lit ''&='') = Inr (lit ''%2Fs3%2Faws4_request'')"
  by (simp_all add: quote_def lit_def utf8_cp_def quote_byte_def always_safe_def hex_upper_def
      hex_digit_def)

lemma generate_link_query:
  assumes "quote (lit ''X-Amz-Algorithm=AWS4-HMAC-SHA256'' @
            lit ''&X-Amz-Credential='' @ access_key_id @ lit ''/'' @
              strftime_datestamp cur_time @ lit ''/'' @ lit ''/s3/aws4_request'' @
            lit ''&X-Amz-Date='' @ strftime_timestamp cur_time @
            lit ''&X-Amz-Expires='' @ int_text expiration @
            lit ''&X-Amz-SignedHeaders=host'') (lit ''&='') = Inr qs"
  shows "\<exists>qa. quote access_key_id (lit ''&='') = Inr qa \<and>
     qs = lit ''X-Amz-Algorithm=AWS4-HMAC-SHA256'' @
          lit ''&X-Amz-Credential='' @ qa @ lit ''%2F'' @
            strftime_datestamp cur_time @ lit ''%2F'' @ lit ''%2Fs3%2Faws4_request'' @
          lit ''&X-Amz-Date='' @ strftime_timestamp cur_time @
          lit ''&X-Amz-Expires='' @ int_text expiration @
          lit ''&X-Amz-SignedHeaders=host''"
  using assms
  by (cases "quote access_key_id (lit ''&='')") (auto simp: quote_append)

lemma dec_digits_value: "foldl (\<lambda>a d. 10 * a + (d - 48)) 0 (dec_digits n) = n"
proof (induction n rule: dec_digits.induct)
  case (1 n)
  show ?case
  proof (cases "n < 10")
    case True
    then show ?thesis by (subst dec_digits.simps) simp
  next
    case False
    with 1 show ?thesis by (subst dec_digits.simps) simp
  qed
qed

lemma dec_digits_inj: "dec_digits m = dec_digits n \<Longrightarrow> m = n"
  by (metis dec_digits_value)

lemma minus_not_digit: "45 \<notin> set (dec_digits n)"
  using dec_digits_set [of n] by (auto simp: lit_def)

lemma int_text_inj: "int_text a = int_text b \<Longrightarrow> a = b"
proof -
  assume e: "int_text a = int_text b"
  consider "a < 0" "b < 0" | "a < 0" "0 \<le> b" | "0 \<le> a" "b < 0" | "0 \<le> a" "0 \<le> b"
    by linarith
  then show "a = b"
  proof cases
    case 1
    with e have "nat (- a) = nat (- b)" by (simp add: int_text_def dec_digits_inj)
    with 1 show ?thesis by simp
  next
    case 2
    with e have "45 # dec_digits (nat (- a)) = dec_digits (nat b)"
      by (simp add: int_text_def)
    then have "45 \<in> set (dec_digits (nat b))"
      by (metis list.set_intros(1))
    with minus_not_digit show ?thesis by blast
  next
    case 3
    with e have "45 # dec_digits (nat (- b)) = dec_digits (nat a)"
      by (simp add: int_text_def)
    then have "45 \<in> set (dec_digits (nat a))"
      by (metis list.set_intros(1))
    with minus_not_digit show ?thesis by blast
  next
    case 4
    with e have "nat a = nat b" by (simp add: int_text_def dec_digits_inj)
    with 4 show ?thesis by simp
  qed
qed

lemma query_join:
  "join (lit ''&'')
     [lit ''X-Amz-Algorithm=AWS4-HMAC-SHA256'', lit ''X-Amz-Credential='' @ c,
      lit ''X-Amz-Date='' @ t, lit ''X-Amz-Expires='' @ e, lit ''X-Amz-SignedHeaders=host''] =
   lit ''X-Amz-Algorithm=AWS4-HMAC-SHA256'' @ lit ''&X-Amz-Credential='' @ c @
   lit ''&X-Amz-Date='' @ t @ lit ''&X-Amz-Expires='' @ e @ lit ''&X-Amz-SignedHeaders=host''"
  by (simp add: lit_def)

lemma quote_pieces:
  "quote s safe = Inr r \<Longrightarrow>
     r = concat (map (\<lambda>c. concat (map (quote_byte safe) (the (utf8_cp c)))) s)"
proof (induction s arbitrary: r)
  case Nil
  then show ?case by (simp add: quote_def)
next
  case (Cons c s)
  from Cons.prems obtain bs r' where "utf8_cp c = Some bs" "quote s safe = Inr r'"
    "r = concat (map (quote_byte safe) bs) @ r'"
    by (auto simp: quote_def bindE_def split: option.splits sum.splits)
  with Cons.IH [of r'] show ?case by simp
qed

lemma piece_unchanged:
  assumes "c \<in> set (lit ''&='')"
  shows "concat (map (quote_byte (lit ''&='')) (the (utf8_cp c))) = [c]"
proof -
  from assms have "c = 38 \<or> c = 61" by (simp add: lit_def)
  then show ?thesis
    by (elim disjE) (simp_all add: lit_def utf8_cp_def quote_byte_def)
qed

lemma piece_escaped:
  assumes "c \<in> set reserved_chars \<union> set (lit '' '')" and "c \<notin> set (lit ''&='')"
  shows "concat (map (quote_byte (lit ''&='')) (the (utf8_cp c))) = lit ''%'' @ hex_upper (of_nat c)"
proof -
  from assms have "c \<in> {58, 47, 63, 35, 91, 93, 64, 33, 36, 40, 41, 42, 43, 44, 59, 39, 32}"
    by (simp add: reserved_chars_def lit_def) blast
  then show ?thesis
    by (elim insertE emptyE) (simp_all add: lit_def utf8_cp_def quote_byte_def always_safe_def)
qed

lemma pieces_list_all2:
  "list_all2
     (\<lambda>c piece.
        (c \<in> set (lit ''&='') \<longrightarrow> piece = [c]) \<and>
        (c \<in> set reserved_chars \<union> set (lit '' '') \<and> c \<notin> set (lit ''&='') \<longrightarrow>
           piece = lit ''%'' @ hex_upper (of_nat c)))
     s (map (\<lambda>c. concat (map (quote_byte (lit ''&='')) (the (utf8_cp c)))) s)"
proof (induction s)
  case Nil
  show ?case by simp
next
  case (Cons c s)
  have "c \<in> set (lit ''&='') \<longrightarrow>
      concat (map (quote_byte (lit ''&='')) (the (utf8_cp c))) = [c]"
    using piece_unchanged by blast
  moreover have "c \<in> set reserved_chars \<union> set (lit '' '') \<and> c \<notin> set (lit ''&='') \<longrightarrow>
      concat (map (quote_byte (lit ''&='')) (the (utf8_cp c))) = lit ''%'' @ hex_upper (of_nat c)"
    using piece_escaped by blast
  ultimately show ?case using Cons.IH by (simp only: list.map list_all2_Cons simp_thms)
qed

subsection \<open>The parameters of the encoded query string\<close>

text \<open>
  The encoding adds no \<open>&\<close>: one in the encoded text comes from one in the text
  encoded. A text joined by \<open>&\<close> from parts without \<open>&\<close> splits at \<open>&\<close> into these
  parts.
\<close>

lemma split_on_nonempty: "split_on c s \<noteq> []"
  by (induction s) (auto split: list.splits)

lemma split_on_none: "c \<notin> set a \<Longrightarrow> split_on c a = [a]"
  by (induction a) auto

lemma split_on_append: "c \<notin> set a \<Longrightarrow> split_on c (a @ c # rest) = a # split_on c rest"
  by (induction a) auto

lemma byte_of_nat_eq: "x < 256 \<Longrightarrow> y < 256 \<Longrightarrow> (of_nat x :: byte) = of_nat y \<Longrightarrow> x = y"
  by (metis unat_of_nat_byte)

lemma utf8_cp_ascii_byte:
  assumes "utf8_cp c = Some bs" and "b \<in> set bs" and "unat b < 128"
  shows "c = unat b"
proof -
  have hi: "128 \<le> unat (of_nat x :: byte)" if "128 \<le> x" "x < 256" for x
    using that by (simp add: unat_of_nat_byte)
  consider "c < 0x80" | "0x80 \<le> c" "c < 0x800" | "0x800 \<le> c" "c < 0x10000" | "0x10000 \<le> c"
    by linarith
  then show ?thesis
  proof cases
    case 1
    with assms show ?thesis by (auto simp: utf8_cp_def unat_of_nat_byte)
  next
    case 2
    then have "128 \<le> unat (of_nat (0xC0 + c div 64) :: byte)"
      "128 \<le> unat (of_nat (0x80 + c mod 64) :: byte)"
      by (intro hi; simp)+
    with 2 assms show ?thesis by (auto simp: utf8_cp_def)
  next
    case 3
    then have "128 \<le> unat (of_nat (0xE0 + c div 4096) :: byte)"
      "128 \<le> unat (of_nat (0x80 + c div 64 mod 64) :: byte)"
      "128 \<le> unat (of_nat (0x80 + c mod 64) :: byte)"
      by (intro hi; simp)+
    with 3 assms show ?thesis by (auto simp: utf8_cp_def split: if_splits)
  next
    case 4
    show ?thesis
    proof (cases "c < 0x110000")
      case True
      then have "128 \<le> unat (of_nat (0xF0 + c div 262144) :: byte)"
        "128 \<le> unat (of_nat (0x80 + c div 4096 mod 64) :: byte)"
        "128 \<le> unat (of_nat (0x80 + c div 64 mod 64) :: byte)"
        "128 \<le> unat (of_nat (0x80 + c mod 64) :: byte)"
        by (intro hi; simp)+
      with 4 True assms show ?thesis by (auto simp: utf8_cp_def)
    next
      case False
      with 4 assms show ?thesis by (simp add: utf8_cp_def)
    qed
  qed
qed

lemma hex_upper_set: "set (hex_upper b) \<subseteq> set (lit ''0123456789ABCDEF'')"
  using hex_digit_mem [of "unat b div 16" "''0123456789ABCDEF''"]
    hex_digit_mem [of "unat b mod 16" "''0123456789ABCDEF''"] unat_byte_div16 [of b]
  by (simp add: hex_upper_def)

lemma quote_byte_amp: "38 \<in> set (quote_byte safe b) \<Longrightarrow> unat b = 38"
  using hex_upper_set [of b] by (auto simp: quote_byte_def lit_def split: if_splits)

lemma quote_no_amp:
  assumes "quote s safe = Inr r" and "38 \<notin> set s"
  shows "38 \<notin> set r"
  using assms
proof (induction s arbitrary: r)
  case Nil
  then show ?case by (simp add: quote_def)
next
  case (Cons c s)
  from Cons.prems(1) obtain bs r' where c: "utf8_cp c = Some bs" and r': "quote s safe = Inr r'"
    and r: "r = concat (map (quote_byte safe) bs) @ r'"
    by (auto simp: quote_def bindE_def split: option.splits sum.splits)
  from Cons.IH [OF r'] Cons.prems(2) have "38 \<notin> set r'" by simp
  moreover have "38 \<notin> set (concat (map (quote_byte safe) bs))"
  proof
    assume "38 \<in> set (concat (map (quote_byte safe) bs))"
    then obtain b where b: "b \<in> set bs" "38 \<in> set (quote_byte safe b)" by auto
    then have "unat b = 38" by (simp add: quote_byte_amp)
    with utf8_cp_ascii_byte [OF c b(1)] have "c = 38" by simp
    with Cons.prems(2) show False by simp
  qed
  ultimately show ?case using r by simp
qed

lemma split_on_join:
  "ps \<noteq> [] \<Longrightarrow> \<forall>p\<in>set ps. c \<notin> set p \<Longrightarrow> split_on c (join [c] ps) = ps"
proof (induction "[c]" ps rule: join.induct)
  case 1
  then show ?case by simp
next
  case (2 x)
  then show ?case by (simp add: split_on_none)
next
  case (3 x y ys)
  then show ?case by (simp add: split_on_append)
qed

lemma no_amp_dec_digits: "38 \<notin> set (dec_digits n)"
  using dec_digits_set [of n] by (auto simp: lit_def)

lemma no_amp_zero_pad: "38 \<notin> set (zero_pad w n)"
  by (simp add: zero_pad_def Let_def no_amp_dec_digits)

lemma no_amp_stamps:
  "38 \<notin> set (strftime_timestamp t)" "38 \<notin> set (strftime_datestamp t)"
  "38 \<notin> set (int_text i)"
  by (simp_all add: strftime_timestamp_def strftime_datestamp_def int_text_def no_amp_zero_pad
      no_amp_dec_digits lit_def)

subsection \<open>The clock\<close>

text \<open>
  Of the clock's value \<open>generate_link\<close> uses the two texts \<open>strftime\<close> makes of it and
  nothing else; a call reads the clock once, unless \<open>host\<close> is absent, and its result
  is that of \<open>generate_link\<close> at the value read.
\<close>

lemma generate_link_clock:
  assumes "strftime_timestamp t1 = strftime_timestamp t2"
    and "strftime_datestamp t1 = strftime_datestamp t2"
  shows "generate_link t1 filename credentials expiration =
         generate_link t2 filename credentials expiration"
  by (simp add: generate_link_def assms)

lemma generate_link_call_result:
  "fst (generate_link_call utcnow filename credentials expiration w) =
     generate_link (fst (utcnow w)) filename credentials expiration"
  by (simp add: generate_link_call_def generate_link_def getitem_def Let_def
      split: option.splits prod.splits)

subsection \<open>An example run\<close>

lemma example_link:
  "\<exists>url. generate_link example_time (lit ''report.xlsx'') example_credentials 3600 = Inr url"
proof -
  have "\<not> isl (generate_link example_time (lit ''report.xlsx'') example_credentials 3600)"
    by (rule generate_link_succeeds)
      ((simp_all add: example_credentials_def lit_def utf8_cp_def small_pos)+)
  then show ?thesis by (rule not_isl_obtain)
qed

lemma example_credentials_simps:
  "example_credentials (lit ''host'') = Some (lit ''s3.example.net'')"
  "example_credentials (lit ''access_key_id'') = Some (lit ''AK/ID 1'')"
  "example_credentials (lit ''BUCKET'') = Some (lit ''reports'')"
  "example_credentials (lit ''secret_access_key'') = Some (lit ''secret'')"
  by (simp_all add: example_credentials_def lit_def)

lemma example_stamps:
  "strftime_timestamp example_time = lit ''20240307T090502Z''"
  "strftime_datestamp example_time = lit ''20240307''"
  "int_text 3600 = lit ''3600''"
  by (simp_all add: strftime_timestamp_def strftime_datestamp_def int_text_def zero_pad_def
      dec_digits.simps example_time_def lit_def)

lemma amp_credentials_simps:
  "amp_credentials (lit ''host'') = Some (lit ''s3.example.net'')"
  "amp_credentials (lit ''access_key_id'') =
     Some (lit ''AK&X-Amz-Expires=999999&X-Amz-Credential=x'')"
  "amp_credentials (lit ''BUCKET'') = Some (lit ''reports'')"
  "amp_credentials (lit ''secret_access_key'') = Some (lit ''secret'')"
  by (simp_all add: amp_credentials_def lit_def)

lemma amp_link:
  "\<exists>url. generate_link example_time (lit ''report.xlsx'') amp_credentials 3600 = Inr url"
proof -
  have "\<not> isl (generate_link example_time (lit ''report.xlsx'') amp_credentials 3600)"
    by (rule generate_link_succeeds)
      ((simp_all add: amp_credentials_def lit_def utf8_cp_def small_pos)+)
  then show ?thesis by (rule not_isl_obtain)
qed

subsection \<open>Errors\<close>

text \<open>
  The module checks neither the credentials nor the expiration. With an expiration of 0,
  and with credentials whose four values are all empty, \<open>generate_link\<close> returns a URL
  and not an error.
\<close>

theorem generate_link_validation_counterexample:
  "\<not> isl (generate_link
      \<lparr>year = 2024, month = 3, day = 7, hour = 9, minute = 5, second = 2, microsecond = 0\<rparr>
      (lit ''report.xlsx'')
      [lit ''host'' \<mapsto> lit ''s3.example.net'', lit ''access_key_id'' \<mapsto> lit ''AKID'',
       lit ''BUCKET'' \<mapsto> lit ''reports'', lit ''secret_access_key'' \<mapsto> lit ''secret'']
      0) \<and>
   \<not> isl (generate_link
      \<lparr>year = 2024, month = 3, day = 7, hour = 9, minute = 5, second = 2, microsecond = 0\<rparr>
      (lit ''report.xlsx'')
      [lit ''host'' \<mapsto> [], lit ''access_key_id'' \<mapsto> [], lit ''BUCKET'' \<mapsto> [],
       lit ''secret_access_key'' \<mapsto> []]
      3600)"
  by (intro conjI generate_link_succeeds) ((simp_all add: lit_def utf8_cp_def small_pos)+)

text \<open>
  C3, as the code has it. \<open>generate_link\<close> validates nothing itself. When one of the
  keys \<open>host\<close>, \<open>access_key_id\<close>, \<open>BUCKET\<close> and \<open>secret_access_key\<close> is absent
  from the credentials it fails, and returns no URL: with the \<open>KeyError\<close> of an absent
  key, or with the \<open>UnicodeEncodeError\<close> or the \<open>ValueError\<close> of a step that comes
  before the lookup of that key; when \<open>host\<close> is absent, with the \<open>KeyError\<close> of
  \<open>host\<close>. When the four keys are present, the file name and the four values can be
  encoded as UTF-8 and the expiration is, in absolute value, below \<open>10\<close> to the power of
  the interpreter's digit limit, it returns a URL: an empty credential value does not
  make it fail, nor does an expiration that is zero or negative.
\<close>

theorem generate_link_failure_cases:
  "(k \<in> {lit ''host'', lit ''access_key_id'', lit ''BUCKET'', lit ''secret_access_key''} \<and>
    credentials k = None \<longrightarrow>
      (\<exists>e. generate_link cur_time filename credentials expiration = Inl e \<and>
         (e = UnicodeEncodeError \<or> e = ValueError \<or>
          (\<exists>k' \<in> {lit ''host'', lit ''access_key_id'', lit ''BUCKET'', lit ''secret_access_key''}.
             e = KeyError k' \<and> credentials k' = None)))) \<and>
   (credentials (lit ''host'') = None \<longrightarrow>
      generate_link cur_time filename credentials expiration = Inl (KeyError (lit ''host''))) \<and>
   (credentials (lit ''host'') = Some host \<and>
    credentials (lit ''access_key_id'') = Some access_key_id \<and>
    credentials (lit ''BUCKET'') = Some bucket \<and>
    credentials (lit ''secret_access_key'') = Some secret \<and>
    \<not> isl (encode_utf8 host) \<and> \<not> isl (encode_utf8 access_key_id) \<and>
    \<not> isl (encode_utf8 bucket) \<and> \<not> isl (encode_utf8 secret) \<and>
    \<not> isl (encode_utf8 filename) \<and> \<bar>expiration\<bar> < 10 ^ int_max_str_digits \<longrightarrow>
      (\<exists>url. generate_link cur_time filename credentials expiration = Inr url))"
proof (intro conjI impI)
  assume a: "k \<in> {lit ''host'', lit ''access_key_id'', lit ''BUCKET'', lit ''secret_access_key''} \<and>
    credentials k = None"
  show "\<exists>e. generate_link cur_time filename credentials expiration = Inl e \<and>
         (e = UnicodeEncodeError \<or> e = ValueError \<or>
          (\<exists>k' \<in> {lit ''host'', lit ''access_key_id'', lit ''BUCKET'', lit ''secret_access_key''}.
             e = KeyError k' \<and> credentials k' = None))"
  proof (cases "generate_link cur_time filename credentials expiration")
    case (Inl e)
    with generate_link_Inl [OF Inl] show ?thesis by simp
  next
    case (Inr url)
    from generate_link_Inr [OF Inr] a show ?thesis by auto
  qed
next
  assume "credentials (lit ''host'') = None"
  then show "generate_link cur_time filename credentials expiration = Inl (KeyError (lit ''host''))"
    by (simp add: generate_link_def Let_def getitem_def)
next
  assume "credentials (lit ''host'') = Some host \<and>
    credentials (lit ''access_key_id'') = Some access_key_id \<and>
    credentials (lit ''BUCKET'') = Some bucket \<and>
    credentials (lit ''secret_access_key'') = Some secret \<and>
    \<not> isl (encode_utf8 host) \<and> \<not> isl (encode_utf8 access_key_id) \<and>
    \<not> isl (encode_utf8 bucket) \<and> \<not> isl (encode_utf8 secret) \<and>
    \<not> isl (encode_utf8 filename) \<and> \<bar>expiration\<bar> < 10 ^ int_max_str_digits"
  then have "\<not> isl (generate_link cur_time filename credentials expiration)"
    by (elim conjE, intro generate_link_succeeds) assumption+
  then show "\<exists>url. generate_link cur_time filename credentials expiration = Inr url"
    by (rule not_isl_obtain)
qed

theorem generate_link_failure_cases_witness:
  "isl (generate_link example_time (lit ''report.xlsx'')
      [lit ''host'' \<mapsto> lit ''s3.example.net'', lit ''access_key_id'' \<mapsto> lit ''AKID'',
       lit ''secret_access_key'' \<mapsto> lit ''secret'']
      3600) \<and>
   (\<exists>url. generate_link example_time (lit ''report.xlsx'')
      [lit ''host'' \<mapsto> [], lit ''access_key_id'' \<mapsto> [], lit ''BUCKET'' \<mapsto> [],
       lit ''secret_access_key'' \<mapsto> []]
      (- 1) = Inr url)"
proof -
  have s: "\<bar>- 1 :: int\<bar> < 10 ^ int_max_str_digits"
    by (rule small_abs) simp
  from generate_link_failure_cases [of "lit ''BUCKET''"
      "[lit ''host'' \<mapsto> lit ''s3.example.net'', lit ''access_key_id'' \<mapsto> lit ''AKID'',
        lit ''secret_access_key'' \<mapsto> lit ''secret'']" example_time "lit ''report.xlsx''" 3600]
  have "isl (generate_link example_time (lit ''report.xlsx'')
      [lit ''host'' \<mapsto> lit ''s3.example.net'', lit ''access_key_id'' \<mapsto> lit ''AKID'',
       lit ''secret_access_key'' \<mapsto> lit ''secret'']
      3600)"
    by (auto simp: lit_def)
  moreover
  from s generate_link_failure_cases [of _
      "[lit ''host'' \<mapsto> [], lit ''access_key_id'' \<mapsto> [], lit ''BUCKET'' \<mapsto> [],
        lit ''secret_access_key'' \<mapsto> []]" example_time "lit ''report.xlsx''" "- 1" "[]" "[]" "[]" "[]"]
  have "\<exists>url. generate_link example_time (lit ''report.xlsx'')
      [lit ''host'' \<mapsto> [], lit ''access_key_id'' \<mapsto> [], lit ''BUCKET'' \<mapsto> [],
       lit ''secret_access_key'' \<mapsto> []]
      (- 1) = Inr url"
    by (simp add: lit_def utf8_cp_def)
  ultimately show ?thesis by simp
qed

subsection \<open>The request, the query string and its encoding\<close>

text \<open>
  C5. In a run of \<open>generate_link\<close> that returns a URL, the string whose SHA-256 digest, in
  hexadecimal, is the last line of the string to sign is the seven lines \<open>GET\<close>,
  \<open>/<bucket>/<filename>\<close>, the percent-encoded query string, \<open>host:<host>\<close>, an empty
  line, \<open>host\<close> and \<open>UNSIGNED-PAYLOAD\<close>, joined by newlines; the signature in the URL is
  the keyed hash of that string to sign.
\<close>

theorem generate_link_canonical_request:
  assumes "generate_link cur_time filename credentials expiration = Inr url"
  shows "\<exists>host bucket access_key_id secret qs request_bytes sts_bytes signature_key.
     credentials (lit ''host'') = Some host \<and>
     credentials (lit ''BUCKET'') = Some bucket \<and>
     credentials (lit ''access_key_id'') = Some access_key_id \<and>
     credentials (lit ''secret_access_key'') = Some secret \<and>
     quote (lit ''X-Amz-Algorithm=AWS4-HMAC-SHA256'' @
            lit ''&X-Amz-Credential='' @ access_key_id @ lit ''/'' @
              strftime_datestamp cur_time @ lit ''/'' @ lit ''/s3/aws4_request'' @
            lit ''&X-Amz-Date='' @ strftime_timestamp cur_time @
            lit ''&X-Amz-Expires='' @ int_text expiration @
            lit ''&X-Amz-SignedHeaders=host'') (lit ''&='') = Inr qs \<and>
     encode_utf8 (join [10]
       [lit ''GET'',
        lit ''/'' @ bucket @ lit ''/'' @ filename,
        qs,
        lit ''host:'' @ host,
        [],
        lit ''host'',
        lit ''UNSIGNED-PAYLOAD'']) = Inr request_bytes \<and>
     encode_utf8 (join [10]
       [lit ''AWS4-HMAC-SHA256'',
        strftime_timestamp cur_time,
        strftime_datestamp cur_time @ lit ''//s3/aws4_request'',
        hex_lower (sha256 request_bytes)]) = Inr sts_bytes \<and>
     create_signature_key secret (strftime_datestamp cur_time) [] (lit ''s3'') = Inr signature_key \<and>
     url = lit ''https://'' @ host @ lit ''/'' @ bucket @ lit ''/'' @ filename @ lit ''?'' @ qs @
           lit ''&X-Amz-Signature='' @ hex_lower (hmac_sha256 signature_key sts_bytes)"
proof -
  have scope: "lit ''/'' @ lit ''/'' @ lit ''s3'' @ lit ''/'' @ lit ''aws4_request'' =
      lit ''//s3/aws4_request''"
    by (simp add: lit_def)
  from generate_link_Inr [OF assms] show ?thesis
    by (simp add: scope) blast
qed

theorem generate_link_canonical_request_witness:
  "\<exists>url qs request_bytes.
     generate_link example_time (lit ''report.xlsx'') example_credentials 3600 = Inr url \<and>
     encode_utf8 (join [10]
       [lit ''GET'',
        lit ''/'' @ lit ''reports'' @ lit ''/'' @ lit ''report.xlsx'',
        qs,
        lit ''host:'' @ lit ''s3.example.net'',
        [],
        lit ''host'',
        lit ''UNSIGNED-PAYLOAD'']) = Inr request_bytes"
proof -
  from example_link obtain url where
    u: "generate_link example_time (lit ''report.xlsx'') example_credentials 3600 = Inr url" ..
  from generate_link_canonical_request [OF u] u show ?thesis
    by (simp only: example_credentials_simps option.inject) blast
qed

text \<open>
  With the access key id \<open>AK&X-Amz-Expires=999999&X-Amz-Credential=x\<close> the query
  string in the URL has seven parameters and not five; two of them are \<open>X-Amz-Expires\<close>,
  and the first has the value 999999, which is not the expiration passed in, 3600.
\<close>

theorem generate_link_seven_parameters_counterexample:
  "\<exists>signature.
     generate_link example_time (lit ''report.xlsx'') amp_credentials 3600 =
       Inr (lit ''https://s3.example.net/reports/report.xlsx?'' @
            join (lit ''&'')
              [lit ''X-Amz-Algorithm=AWS4-HMAC-SHA256'',
               lit ''X-Amz-Credential=AK'',
               lit ''X-Amz-Expires=999999'',
               lit ''X-Amz-Credential=x%2F20240307%2F%2Fs3%2Faws4_request'',
               lit ''X-Amz-Date=20240307T090502Z'',
               lit ''X-Amz-Expires=3600'',
               lit ''X-Amz-SignedHeaders=host''] @
            lit ''&X-Amz-Signature='' @ signature)"
proof -
  from amp_link obtain url where
    u: "generate_link example_time (lit ''report.xlsx'') amp_credentials 3600 = Inr url" ..
  have q: "quote (lit ''AK&X-Amz-Expires=999999&X-Amz-Credential=x'') (lit ''&='') =
      Inr (lit ''AK&X-Amz-Expires=999999&X-Amz-Credential=x'')"
    by (rule quote_safe) (simp add: lit_def always_safe_def)
  from generate_link_Inr [OF u]
  obtain host access_key_id bucket qs signature where
    c: "amp_credentials (lit ''host'') = Some host"
      "amp_credentials (lit ''access_key_id'') = Some access_key_id"
      "amp_credentials (lit ''BUCKET'') = Some bucket"
    and qq: "quote (lit ''X-Amz-Algorithm=AWS4-HMAC-SHA256'' @
            lit ''&X-Amz-Credential='' @ access_key_id @ lit ''/'' @
              strftime_datestamp example_time @ lit ''/'' @ lit ''/s3/aws4_request'' @
            lit ''&X-Amz-Date='' @ strftime_timestamp example_time @
            lit ''&X-Amz-Expires='' @ int_text 3600 @
            lit ''&X-Amz-SignedHeaders=host'') (lit ''&='') = Inr qs"
    and url: "url = (lit ''https://'' @ host) @ lit ''/'' @ bucket @ lit ''/'' @
           lit ''report.xlsx'' @ lit ''?'' @ qs @ lit ''&X-Amz-Signature='' @ signature"
    by blast
  from generate_link_query [OF qq] obtain qa where
    qa: "quote access_key_id (lit ''&='') = Inr qa"
    and qs: "qs = lit ''X-Amz-Algorithm=AWS4-HMAC-SHA256'' @
          lit ''&X-Amz-Credential='' @ qa @ lit ''%2F'' @
            strftime_datestamp example_time @ lit ''%2F'' @ lit ''%2Fs3%2Faws4_request'' @
          lit ''&X-Amz-Date='' @ strftime_timestamp example_time @
          lit ''&X-Amz-Expires='' @ int_text 3600 @
          lit ''&X-Amz-SignedHeaders=host''"
    by blast
  from c have v: "host = lit ''s3.example.net''" "bucket = lit ''reports''"
    "access_key_id = lit ''AK&X-Amz-Expires=999999&X-Amz-Credential=x''"
    by (simp_all add: amp_credentials_simps)
  from qa q v have "qa = lit ''AK&X-Amz-Expires=999999&X-Amz-Credential=x''" by simp
  with qs url v have "url = lit ''https://s3.example.net/reports/report.xlsx?'' @
            join (lit ''&'')
              [lit ''X-Amz-Algorithm=AWS4-HMAC-SHA256'',
               lit ''X-Amz-Credential=AK'',
               lit ''X-Amz-Expires=999999'',
               lit ''X-Amz-Credential=x%2F20240307%2F%2Fs3%2Faws4_request'',
               lit ''X-Amz-Date=20240307T090502Z'',
               lit ''X-Amz-Expires=3600'',
               lit ''X-Amz-SignedHeaders=host''] @
            lit ''&X-Amz-Signature='' @ signature"
    by (simp add: example_stamps lit_def)
  with u show ?thesis by blast
qed

text \<open>
  C6, as the code has it. The query string that \<open>generate_link\<close> encodes is the five
  texts \<open>X-Amz-Algorithm=AWS4-HMAC-SHA256\<close>,
  \<open>X-Amz-Credential=<access_key_id>/<datestamp>//s3/aws4_request\<close>,
  \<open>X-Amz-Date=<timestamp>\<close>, \<open>X-Amz-Expires=<expiration>\<close> and
  \<open>X-Amz-SignedHeaders=host\<close>, in this order, joined by \<open>&\<close>, whatever the inputs
  are, and the URL has them in the same order with the access key id percent-encoded;
  the text after \<open>X-Amz-Expires=\<close> is the decimal text of the expiration passed in,
  which determines that integer. When the access key id contains no \<open>&\<close>, the encoded
  query string splits at \<open>&\<close> into exactly these five parameters.
\<close>

theorem generate_link_query_string:
  assumes "generate_link cur_time filename credentials expiration = Inr url"
  shows "\<exists>host bucket access_key_id qs qa signature.
     credentials (lit ''host'') = Some host \<and>
     credentials (lit ''BUCKET'') = Some bucket \<and>
     credentials (lit ''access_key_id'') = Some access_key_id \<and>
     quote (join (lit ''&'')
        [lit ''X-Amz-Algorithm=AWS4-HMAC-SHA256'',
         lit ''X-Amz-Credential='' @ access_key_id @ lit ''/'' @ strftime_datestamp cur_time @
           lit ''/'' @ lit '''' @ lit ''/s3/aws4_request'',
         lit ''X-Amz-Date='' @ strftime_timestamp cur_time,
         lit ''X-Amz-Expires='' @ int_text expiration,
         lit ''X-Amz-SignedHeaders=host'']) (lit ''&='') = Inr qs \<and>
     quote access_key_id (lit ''&='') = Inr qa \<and>
     qs = join (lit ''&'')
        [lit ''X-Amz-Algorithm=AWS4-HMAC-SHA256'',
         lit ''X-Amz-Credential='' @ qa @ lit ''%2F'' @ strftime_datestamp cur_time @
           lit ''%2F%2Fs3%2Faws4_request'',
         lit ''X-Amz-Date='' @ strftime_timestamp cur_time,
         lit ''X-Amz-Expires='' @ int_text expiration,
         lit ''X-Amz-SignedHeaders=host''] \<and>
     url = lit ''https://'' @ host @ lit ''/'' @ bucket @ lit ''/'' @ filename @ lit ''?'' @ qs @
           lit ''&X-Amz-Signature='' @ signature \<and>
     (\<forall>e. int_text e = int_text expiration \<longrightarrow> e = expiration) \<and>
     (38 \<notin> set access_key_id \<longrightarrow>
        split_on 38 qs =
          [lit ''X-Amz-Algorithm=AWS4-HMAC-SHA256'',
           lit ''X-Amz-Credential='' @ qa @ lit ''%2F'' @ strftime_datestamp cur_time @
             lit ''%2F%2Fs3%2Faws4_request'',
           lit ''X-Amz-Date='' @ strftime_timestamp cur_time,
           lit ''X-Amz-Expires='' @ int_text expiration,
           lit ''X-Amz-SignedHeaders=host''])"
proof -
  from generate_link_Inr [OF assms]
  obtain host access_key_id bucket qs signature where
    c: "credentials (lit ''host'') = Some host"
      "credentials (lit ''access_key_id'') = Some access_key_id"
      "credentials (lit ''BUCKET'') = Some bucket"
    and q: "quote (lit ''X-Amz-Algorithm=AWS4-HMAC-SHA256'' @
            lit ''&X-Amz-Credential='' @ access_key_id @ lit ''/'' @
              strftime_datestamp cur_time @ lit ''/'' @ lit ''/s3/aws4_request'' @
            lit ''&X-Amz-Date='' @ strftime_timestamp cur_time @
            lit ''&X-Amz-Expires='' @ int_text expiration @
            lit ''&X-Amz-SignedHeaders=host'') (lit ''&='') = Inr qs"
    and u: "url = (lit ''https://'' @ host) @ lit ''/'' @ bucket @ lit ''/'' @ filename @
           lit ''?'' @ qs @ lit ''&X-Amz-Signature='' @ signature"
    by blast
  from generate_link_query [OF q] obtain qa where
    qa: "quote access_key_id (lit ''&='') = Inr qa"
    and qs: "qs = lit ''X-Amz-Algorithm=AWS4-HMAC-SHA256'' @
          lit ''&X-Amz-Credential='' @ qa @ lit ''%2F'' @
            strftime_datestamp cur_time @ lit ''%2F'' @ lit ''%2Fs3%2Faws4_request'' @
          lit ''&X-Amz-Date='' @ strftime_timestamp cur_time @
          lit ''&X-Amz-Expires='' @ int_text expiration @
          lit ''&X-Amz-SignedHeaders=host''"
    by blast
  let ?ps = "[lit ''X-Amz-Algorithm=AWS4-HMAC-SHA256'',
         lit ''X-Amz-Credential='' @ qa @ lit ''%2F'' @ strftime_datestamp cur_time @
           lit ''%2F%2Fs3%2Faws4_request'',
         lit ''X-Amz-Date='' @ strftime_timestamp cur_time,
         lit ''X-Amz-Expires='' @ int_text expiration,
         lit ''X-Amz-SignedHeaders=host'']"
  have e: "lit ''%2F'' @ lit ''%2Fs3%2Faws4_request'' @ r = lit ''%2F%2Fs3%2Faws4_request'' @ r"
    for r by (simp add: lit_def)
  have q': "quote (join (lit ''&'')
        [lit ''X-Amz-Algorithm=AWS4-HMAC-SHA256'',
         lit ''X-Amz-Credential='' @ access_key_id @ lit ''/'' @ strftime_datestamp cur_time @
           lit ''/'' @ lit '''' @ lit ''/s3/aws4_request'',
         lit ''X-Amz-Date='' @ strftime_timestamp cur_time,
         lit ''X-Amz-Expires='' @ int_text expiration,
         lit ''X-Amz-SignedHeaders=host'']) (lit ''&='') = Inr qs"
    using q by (simp only: query_join append_assoc lit_Nil append_Nil)
  have qs': "qs = join (lit ''&'') ?ps"
    using qs by (simp only: query_join append_assoc e)
  have sp: "split_on 38 qs = ?ps" if "38 \<notin> set access_key_id"
  proof -
    from quote_no_amp [OF qa that] have a: "38 \<notin> set qa" .
    have l: "38 \<notin> set (lit ''X-Amz-Algorithm=AWS4-HMAC-SHA256'')"
      "38 \<notin> set (lit ''X-Amz-Credential='')" "38 \<notin> set (lit ''%2F'')"
      "38 \<notin> set (lit ''%2F%2Fs3%2Faws4_request'')" "38 \<notin> set (lit ''X-Amz-Date='')"
      "38 \<notin> set (lit ''X-Amz-Expires='')" "38 \<notin> set (lit ''X-Amz-SignedHeaders=host'')"
      by (simp_all add: lit_def)
    have "\<forall>p\<in>set ?ps. 38 \<notin> set p"
      using a l by (simp add: no_amp_stamps)
    then have "split_on 38 (join [38] ?ps) = ?ps"
      by (intro split_on_join) simp_all
    moreover have "lit ''&'' = [38]" by (simp add: lit_def)
    ultimately show ?thesis using qs' by simp
  qed
  from c q' qa qs' u int_text_inj sp show ?thesis
    by (intro exI conjI allI impI) (assumption | simp)+
qed

theorem generate_link_query_string_witness:
  "\<exists>url qs signature.
     generate_link example_time (lit ''report.xlsx'') example_credentials 3600 = Inr url \<and>
     url = lit ''https://s3.example.net/reports/report.xlsx?'' @ qs @
           lit ''&X-Amz-Signature='' @ signature \<and>
     qs = join (lit ''&'')
             [lit ''X-Amz-Algorithm=AWS4-HMAC-SHA256'',
              lit ''X-Amz-Credential=AK%2FID%201%2F20240307%2F%2Fs3%2Faws4_request'',
              lit ''X-Amz-Date=20240307T090502Z'',
              lit ''X-Amz-Expires=3600'',
              lit ''X-Amz-SignedHeaders=host''] \<and>
     split_on 38 qs =
             [lit ''X-Amz-Algorithm=AWS4-HMAC-SHA256'',
              lit ''X-Amz-Credential=AK%2FID%201%2F20240307%2F%2Fs3%2Faws4_request'',
              lit ''X-Amz-Date=20240307T090502Z'',
              lit ''X-Amz-Expires=3600'',
              lit ''X-Amz-SignedHeaders=host'']"
proof -
  from example_link obtain url where
    u: "generate_link example_time (lit ''report.xlsx'') example_credentials 3600 = Inr url" ..
  have q: "quote (lit ''AK/ID 1'') (lit ''&='') = Inr (lit ''AK%2FID%201'')"
    by (simp add: quote_def lit_def utf8_cp_def quote_byte_def always_safe_def hex_upper_def
        hex_digit_def)
  from generate_link_query_string [OF u]
  obtain host bucket access_key_id qs qa signature where
    c: "example_credentials (lit ''host'') = Some host"
      "example_credentials (lit ''BUCKET'') = Some bucket"
      "example_credentials (lit ''access_key_id'') = Some access_key_id"
    and qa: "quote access_key_id (lit ''&='') = Inr qa"
    and qs: "qs = join (lit ''&'')
        [lit ''X-Amz-Algorithm=AWS4-HMAC-SHA256'',
         lit ''X-Amz-Credential='' @ qa @ lit ''%2F'' @ strftime_datestamp example_time @
           lit ''%2F%2Fs3%2Faws4_request'',
         lit ''X-Amz-Date='' @ strftime_timestamp example_time,
         lit ''X-Amz-Expires='' @ int_text 3600,
         lit ''X-Amz-SignedHeaders=host'']"
    and url: "url = lit ''https://'' @ host @ lit ''/'' @ bucket @ lit ''/'' @ lit ''report.xlsx'' @
           lit ''?'' @ qs @ lit ''&X-Amz-Signature='' @ signature"
    and sp: "38 \<notin> set access_key_id \<longrightarrow>
        split_on 38 qs =
          [lit ''X-Amz-Algorithm=AWS4-HMAC-SHA256'',
           lit ''X-Amz-Credential='' @ qa @ lit ''%2F'' @ strftime_datestamp example_time @
             lit ''%2F%2Fs3%2Faws4_request'',
           lit ''X-Amz-Date='' @ strftime_timestamp example_time,
           lit ''X-Amz-Expires='' @ int_text 3600,
           lit ''X-Amz-SignedHeaders=host'']"
    by blast
  from c have v: "host = lit ''s3.example.net''" "bucket = lit ''reports''"
    "access_key_id = lit ''AK/ID 1''"
    by (simp_all add: example_credentials_simps)
  from qa q v have a: "qa = lit ''AK%2FID%201''" by simp
  from v have "38 \<notin> set access_key_id" by (simp add: lit_def)
  with sp a have s: "split_on 38 qs =
             [lit ''X-Amz-Algorithm=AWS4-HMAC-SHA256'',
              lit ''X-Amz-Credential=AK%2FID%201%2F20240307%2F%2Fs3%2Faws4_request'',
              lit ''X-Amz-Date=20240307T090502Z'',
              lit ''X-Amz-Expires=3600'',
              lit ''X-Amz-SignedHeaders=host'']"
    by (simp add: example_stamps lit_def)
  from qs a have j: "qs = join (lit ''&'')
             [lit ''X-Amz-Algorithm=AWS4-HMAC-SHA256'',
              lit ''X-Amz-Credential=AK%2FID%201%2F20240307%2F%2Fs3%2Faws4_request'',
              lit ''X-Amz-Date=20240307T090502Z'',
              lit ''X-Amz-Expires=3600'',
              lit ''X-Amz-SignedHeaders=host'']"
    by (simp add: example_stamps lit_def)
  from url v have "url = lit ''https://s3.example.net/reports/report.xlsx?'' @ qs @
           lit ''&X-Amz-Signature='' @ signature"
    by (simp add: lit_def)
  with u s j show ?thesis by blast
qed

text \<open>
  C7. The encoded query string in the URL is made of one piece per character of the query
  string, in order: a character \<open>&\<close> or \<open>=\<close> is its own piece, unchanged, and every
  other reserved character, \<open>/\<close> among them, and the space have as their piece \<open>%\<close>
  followed by the two uppercase hexadecimal digits of the character.
\<close>

theorem generate_link_percent_encoding:
  assumes "generate_link cur_time filename credentials expiration = Inr url"
  shows "\<exists>host bucket access_key_id pieces signature.
     credentials (lit ''host'') = Some host \<and>
     credentials (lit ''BUCKET'') = Some bucket \<and>
     credentials (lit ''access_key_id'') = Some access_key_id \<and>
     url = lit ''https://'' @ host @ lit ''/'' @ bucket @ lit ''/'' @ filename @ lit ''?'' @
           concat pieces @ lit ''&X-Amz-Signature='' @ signature \<and>
     list_all2
       (\<lambda>c piece.
          (c \<in> set (lit ''&='') \<longrightarrow> piece = [c]) \<and>
          (c \<in> set reserved_chars \<union> set (lit '' '') \<and> c \<notin> set (lit ''&='') \<longrightarrow>
             piece = lit ''%'' @ hex_upper (of_nat c)))
       (join (lit ''&'')
         [lit ''X-Amz-Algorithm=AWS4-HMAC-SHA256'',
          lit ''X-Amz-Credential='' @ access_key_id @ lit ''/'' @ strftime_datestamp cur_time @
            lit ''/'' @ lit '''' @ lit ''/s3/aws4_request'',
          lit ''X-Amz-Date='' @ strftime_timestamp cur_time,
          lit ''X-Amz-Expires='' @ int_text expiration,
          lit ''X-Amz-SignedHeaders=host''])
       pieces"
proof -
  from generate_link_Inr [OF assms]
  obtain host access_key_id bucket qs signature where
    c: "credentials (lit ''host'') = Some host"
      "credentials (lit ''access_key_id'') = Some access_key_id"
      "credentials (lit ''BUCKET'') = Some bucket"
    and q: "quote (lit ''X-Amz-Algorithm=AWS4-HMAC-SHA256'' @
            lit ''&X-Amz-Credential='' @ access_key_id @ lit ''/'' @
              strftime_datestamp cur_time @ lit ''/'' @ lit ''/s3/aws4_request'' @
            lit ''&X-Amz-Date='' @ strftime_timestamp cur_time @
            lit ''&X-Amz-Expires='' @ int_text expiration @
            lit ''&X-Amz-SignedHeaders=host'') (lit ''&='') = Inr qs"
    and u: "url = (lit ''https://'' @ host) @ lit ''/'' @ bucket @ lit ''/'' @ filename @
           lit ''?'' @ qs @ lit ''&X-Amz-Signature='' @ signature"
    by blast
  define sq where "sq = join (lit ''&'')
         [lit ''X-Amz-Algorithm=AWS4-HMAC-SHA256'',
          lit ''X-Amz-Credential='' @ access_key_id @ lit ''/'' @ strftime_datestamp cur_time @
            lit ''/'' @ lit '''' @ lit ''/s3/aws4_request'',
          lit ''X-Amz-Date='' @ strftime_timestamp cur_time,
          lit ''X-Amz-Expires='' @ int_text expiration,
          lit ''X-Amz-SignedHeaders=host'']"
  define pieces where
    "pieces = map (\<lambda>c. concat (map (quote_byte (lit ''&='')) (the (utf8_cp c)))) sq"
  have "quote sq (lit ''&='') = Inr qs"
    unfolding sq_def using q by (simp only: query_join append_assoc lit_Nil append_Nil)
  then have qs: "qs = concat pieces"
    unfolding pieces_def by (rule quote_pieces)
  have p: "list_all2
       (\<lambda>c piece.
          (c \<in> set (lit ''&='') \<longrightarrow> piece = [c]) \<and>
          (c \<in> set reserved_chars \<union> set (lit '' '') \<and> c \<notin> set (lit ''&='') \<longrightarrow>
             piece = lit ''%'' @ hex_upper (of_nat c)))
       sq pieces"
    unfolding pieces_def by (rule pieces_list_all2)
  from u qs have u': "url = lit ''https://'' @ host @ lit ''/'' @ bucket @ lit ''/'' @ filename @
      lit ''?'' @ concat pieces @ lit ''&X-Amz-Signature='' @ signature"
    by (simp only: append_assoc)
  from c u' p [unfolded sq_def] show ?thesis by blast
qed

theorem generate_link_percent_encoding_witness:
  "\<exists>url pieces signature.
     generate_link example_time (lit ''report.xlsx'') example_credentials 3600 = Inr url \<and>
     url = lit ''https://'' @ lit ''s3.example.net'' @ lit ''/'' @ lit ''reports'' @ lit ''/'' @
           lit ''report.xlsx'' @ lit ''?'' @ concat pieces @ lit ''&X-Amz-Signature='' @ signature \<and>
     list_all2
       (\<lambda>c piece.
          (c \<in> set (lit ''&='') \<longrightarrow> piece = [c]) \<and>
          (c \<in> set reserved_chars \<union> set (lit '' '') \<and> c \<notin> set (lit ''&='') \<longrightarrow>
             piece = lit ''%'' @ hex_upper (of_nat c)))
       (join (lit ''&'')
         [lit ''X-Amz-Algorithm=AWS4-HMAC-SHA256'',
          lit ''X-Amz-Credential='' @ lit ''AK/ID 1'' @ lit ''/'' @
            strftime_datestamp example_time @ lit ''/'' @ lit '''' @ lit ''/s3/aws4_request'',
          lit ''X-Amz-Date='' @ strftime_timestamp example_time,
          lit ''X-Amz-Expires='' @ int_text 3600,
          lit ''X-Amz-SignedHeaders=host''])
       pieces"
proof -
  from example_link obtain url where
    u: "generate_link example_time (lit ''report.xlsx'') example_credentials 3600 = Inr url" ..
  from generate_link_percent_encoding [OF u] u show ?thesis
    by (simp only: example_credentials_simps option.inject) blast
qed

text \<open>
  C8. \<open>generate_link\<close> reads the clock and its arguments and nothing else. Two calls
  with the same file name, the same credentials and the same expiration, made in any two
  states of the world in which the clock reads the same year, month, day, hour, minute and
  second, give the same result: the same URL, character for character, or the same
  error. A URL returned carries the date and the time that were read.
\<close>

theorem generate_link_deterministic:
  assumes "year (fst (utcnow w1)) = year (fst (utcnow w2))"
    and "month (fst (utcnow w1)) = month (fst (utcnow w2))"
    and "day (fst (utcnow w1)) = day (fst (utcnow w2))"
    and "hour (fst (utcnow w1)) = hour (fst (utcnow w2))"
    and "minute (fst (utcnow w1)) = minute (fst (utcnow w2))"
    and "second (fst (utcnow w1)) = second (fst (utcnow w2))"
  shows "fst (generate_link_call utcnow filename credentials expiration w1) =
         fst (generate_link_call utcnow filename credentials expiration w2) \<and>
    (\<forall>url. fst (generate_link_call utcnow filename credentials expiration w1) = Inr url \<longrightarrow>
       (\<exists>host bucket qa signature.
          credentials (lit ''host'') = Some host \<and> credentials (lit ''BUCKET'') = Some bucket \<and>
          url = lit ''https://'' @ host @ lit ''/'' @ bucket @ lit ''/'' @ filename @
            lit ''?X-Amz-Algorithm=AWS4-HMAC-SHA256&X-Amz-Credential='' @ qa @ lit ''%2F'' @
            strftime_datestamp (fst (utcnow w1)) @ lit ''%2F%2Fs3%2Faws4_request&X-Amz-Date='' @
            strftime_timestamp (fst (utcnow w1)) @ lit ''&X-Amz-Expires='' @ int_text expiration @
            lit ''&X-Amz-SignedHeaders=host&X-Amz-Signature='' @ signature))"
proof (intro conjI allI impI)
  have "strftime_timestamp (fst (utcnow w1)) = strftime_timestamp (fst (utcnow w2))"
    "strftime_datestamp (fst (utcnow w1)) = strftime_datestamp (fst (utcnow w2))"
    by (simp_all add: strftime_timestamp_def strftime_datestamp_def assms)
  then have "generate_link (fst (utcnow w1)) filename credentials expiration =
      generate_link (fst (utcnow w2)) filename credentials expiration"
    by (rule generate_link_clock)
  then show "fst (generate_link_call utcnow filename credentials expiration w1) =
         fst (generate_link_call utcnow filename credentials expiration w2)"
    by (simp only: generate_link_call_result)
next
  fix url
  assume "fst (generate_link_call utcnow filename credentials expiration w1) = Inr url"
  then have g: "generate_link (fst (utcnow w1)) filename credentials expiration = Inr url"
    by (simp only: generate_link_call_result)
  from generate_link_Inr [OF g]
  obtain host access_key_id bucket qs signature where
    c: "credentials (lit ''host'') = Some host" "credentials (lit ''BUCKET'') = Some bucket"
    and q: "quote (lit ''X-Amz-Algorithm=AWS4-HMAC-SHA256'' @
            lit ''&X-Amz-Credential='' @ access_key_id @ lit ''/'' @
              strftime_datestamp (fst (utcnow w1)) @ lit ''/'' @ lit ''/s3/aws4_request'' @
            lit ''&X-Amz-Date='' @ strftime_timestamp (fst (utcnow w1)) @
            lit ''&X-Amz-Expires='' @ int_text expiration @
            lit ''&X-Amz-SignedHeaders=host'') (lit ''&='') = Inr qs"
    and u: "url = (lit ''https://'' @ host) @ lit ''/'' @ bucket @ lit ''/'' @ filename @
           lit ''?'' @ qs @ lit ''&X-Amz-Signature='' @ signature"
    by blast
  from generate_link_query [OF q] obtain qa where
    qs: "qs = lit ''X-Amz-Algorithm=AWS4-HMAC-SHA256'' @
          lit ''&X-Amz-Credential='' @ qa @ lit ''%2F'' @
            strftime_datestamp (fst (utcnow w1)) @ lit ''%2F'' @ lit ''%2Fs3%2Faws4_request'' @
          lit ''&X-Amz-Date='' @ strftime_timestamp (fst (utcnow w1)) @
          lit ''&X-Amz-Expires='' @ int_text expiration @
          lit ''&X-Amz-SignedHeaders=host''"
    by blast
  from u qs have "url = lit ''https://'' @ host @ lit ''/'' @ bucket @ lit ''/'' @ filename @
            lit ''?X-Amz-Algorithm=AWS4-HMAC-SHA256&X-Amz-Credential='' @ qa @ lit ''%2F'' @
            strftime_datestamp (fst (utcnow w1)) @ lit ''%2F%2Fs3%2Faws4_request&X-Amz-Date='' @
            strftime_timestamp (fst (utcnow w1)) @ lit ''&X-Amz-Expires='' @ int_text expiration @
            lit ''&X-Amz-SignedHeaders=host&X-Amz-Signature='' @ signature"
    by (simp add: lit_def)
  with c show "\<exists>host bucket qa signature.
          credentials (lit ''host'') = Some host \<and> credentials (lit ''BUCKET'') = Some bucket \<and>
          url = lit ''https://'' @ host @ lit ''/'' @ bucket @ lit ''/'' @ filename @
            lit ''?X-Amz-Algorithm=AWS4-HMAC-SHA256&X-Amz-Credential='' @ qa @ lit ''%2F'' @
            strftime_datestamp (fst (utcnow w1)) @ lit ''%2F%2Fs3%2Faws4_request&X-Amz-Date='' @
            strftime_timestamp (fst (utcnow w1)) @ lit ''&X-Amz-Expires='' @ int_text expiration @
            lit ''&X-Amz-SignedHeaders=host&X-Amz-Signature='' @ signature"
    by blast
qed

theorem generate_link_deterministic_witness:
  "fst (example_clock 0) \<noteq> fst (example_clock 5) \<and>
   fst (generate_link_call example_clock (lit ''report.xlsx'') example_credentials 3600 0) =
   fst (generate_link_call example_clock (lit ''report.xlsx'') example_credentials 3600 5) \<and>
   (\<exists>url qa signature.
      fst (generate_link_call example_clock (lit ''report.xlsx'') example_credentials 3600 0) =
        Inr url \<and>
      url = lit ''https://s3.example.net/reports/report.xlsx'' @
            lit ''?X-Amz-Algorithm=AWS4-HMAC-SHA256&X-Amz-Credential='' @ qa @
            lit ''%2F20240307%2F%2Fs3%2Faws4_request&X-Amz-Date=20240307T090502Z'' @
            lit ''&X-Amz-Expires=3600&X-Amz-SignedHeaders=host&X-Amz-Signature='' @ signature)"
proof -
  have t: "strftime_timestamp (fst (example_clock 0)) = lit ''20240307T090502Z''"
    "strftime_datestamp (fst (example_clock 0)) = lit ''20240307''"
    by (simp_all add: strftime_timestamp_def strftime_datestamp_def zero_pad_def
      dec_digits.simps example_time_def example_clock_def lit_def)
  have n: "fst (example_clock 0) \<noteq> fst (example_clock 5)"
    by (simp add: example_clock_def example_time_def)
  note d = generate_link_deterministic [of example_clock 0 5 "lit ''report.xlsx''"
      example_credentials 3600]
  have f: "year (fst (example_clock 0)) = year (fst (example_clock 5))"
    "month (fst (example_clock 0)) = month (fst (example_clock 5))"
    "day (fst (example_clock 0)) = day (fst (example_clock 5))"
    "hour (fst (example_clock 0)) = hour (fst (example_clock 5))"
    "minute (fst (example_clock 0)) = minute (fst (example_clock 5))"
    "second (fst (example_clock 0)) = second (fst (example_clock 5))"
    by (simp_all add: example_clock_def)
  note d' = d [OF f]
  from example_link obtain url0 where
    "generate_link example_time (lit ''report.xlsx'') example_credentials 3600 = Inr url0" ..
  moreover have "generate_link (fst (example_clock 0)) (lit ''report.xlsx'') example_credentials 3600
      = generate_link example_time (lit ''report.xlsx'') example_credentials 3600"
    by (rule generate_link_clock)
      (simp_all add: strftime_timestamp_def strftime_datestamp_def example_clock_def)
  ultimately have r: "fst (generate_link_call example_clock (lit ''report.xlsx'')
      example_credentials 3600 0) = Inr url0"
    by (simp only: generate_link_call_result)
  from d' r obtain host bucket qa signature where
    c: "example_credentials (lit ''host'') = Some host"
      "example_credentials (lit ''BUCKET'') = Some bucket"
    and u: "url0 = lit ''https://'' @ host @ lit ''/'' @ bucket @ lit ''/'' @ lit ''report.xlsx'' @
            lit ''?X-Amz-Algorithm=AWS4-HMAC-SHA256&X-Amz-Credential='' @ qa @ lit ''%2F'' @
            strftime_datestamp (fst (example_clock 0)) @
            lit ''%2F%2Fs3%2Faws4_request&X-Amz-Date='' @
            strftime_timestamp (fst (example_clock 0)) @ lit ''&X-Amz-Expires='' @ int_text 3600 @
            lit ''&X-Amz-SignedHeaders=host&X-Amz-Signature='' @ signature"
    by blast
  from c have v: "host = lit ''s3.example.net''" "bucket = lit ''reports''"
    by (simp_all add: example_credentials_simps)
  from u v have "url0 = lit ''https://s3.example.net/reports/report.xlsx'' @
            lit ''?X-Amz-Algorithm=AWS4-HMAC-SHA256&X-Amz-Credential='' @ qa @
            lit ''%2F20240307%2F%2Fs3%2Faws4_request&X-Amz-Date=20240307T090502Z'' @
            lit ''&X-Amz-Expires=3600&X-Amz-SignedHeaders=host&X-Amz-Signature='' @ signature"
    by (simp add: t example_stamps lit_def)
  with n d' r show ?thesis by blast
qed

section \<open>Properties of the spreadsheet reports\<close>

subsection \<open>The banding loop\<close>

lemma sheet_excel_eq: "sheet_excel lower = sheet_with lower 30 band_excel"
  by (simp add: sheet_excel_def sheet_with_def)

lemma sheet_effectiveness_eq: "sheet_effectiveness lower = sheet_with lower 20 band_effectiveness"
  by (simp add: sheet_effectiveness_def sheet_with_def)

lemma is_band_excel: "is_band band_excel"
  by (simp add: is_band_def band_excel_def set_row_def set_column_def Let_def)

lemma is_band_effectiveness: "is_band band_effectiveness"
  by (simp add: is_band_def band_effectiveness_def set_row_def set_column_def Let_def)

lemma cells_fold_band: "is_band band \<Longrightarrow> cells (fold band rows ws) = cells ws"
  by (induction rows arbitrary: ws) (simp_all add: is_band_def)

lemma band_range_empty: "odd (start::nat) \<Longrightarrow> \<not> start < stop \<Longrightarrow> \<not> (start \<le> r \<and> r \<le> (if even stop then stop else stop - 1))"
proof (cases "even stop")
  case True
  assume "odd start" "\<not> start < stop"
  with True have "stop < start" by (metis linorder_neqE_nat)
  with True show ?thesis by simp
next
  case False
  assume "odd start" "\<not> start < stop"
  moreover from False have "0 < stop" by (simp add: odd_pos)
  ultimately show ?thesis using False by auto
qed

lemma band_range_next: "odd (start::nat) \<Longrightarrow> start < stop \<Longrightarrow> start + 1 \<le> (if even stop then stop else stop - 1)"
proof (cases "even stop")
  case True
  assume "odd start" "start < stop"
  with True show ?thesis by simp
next
  case False
  assume "odd start" "start < stop"
  with False have "start + 1 \<noteq> stop" by auto
  with \<open>start < stop\<close> False show ?thesis by simp
qed

lemma row_info_band:
  assumes "is_band band"
  shows "row_info (band start ws) r =
     (if r = start + 1 \<and> r < xls_rowmax then Some (None, Some data_format2)
      else if r = start \<and> r < xls_rowmax then Some (None, Some data_format1)
      else row_info ws r)"
proof -
  from assms have "row_info (band start ws) =
      row_info (set_row (start + 1) None (Some data_format2)
                 (set_row start None (Some data_format1) ws))"
    by (simp add: is_band_def)
  then show ?thesis by (simp add: set_row_def)
qed

lemma row_info_fold_band_aux:
  assumes "is_band band"
  shows "odd start \<Longrightarrow>
     row_info (fold band (py_range start stop 2) ws) r =
       (if start \<le> r \<and> r \<le> (if even stop then stop else stop - 1) \<and> r < xls_rowmax
        then Some (None, Some (band_format r)) else row_info ws r)"
proof (induction start stop "2 :: nat" arbitrary: ws rule: py_range.induct)
  case (1 start stop)
  define u where "u = (if even stop then stop else stop - 1)"
  show ?case
    unfolding u_def [symmetric]
  proof (cases "start < stop")
    case False
    with "1.prems" have "\<not> (start \<le> r \<and> r \<le> u)"
      unfolding u_def by (rule band_range_empty)
    then have "\<not> (start \<le> r \<and> r \<le> u \<and> r < xls_rowmax)" by blast
    moreover from False have "py_range start stop 2 = []"
      by (subst py_range.simps) simp
    ultimately show "row_info (fold band (py_range start stop 2) ws) r =
        (if start \<le> r \<and> r \<le> u \<and> r < xls_rowmax
         then Some (None, Some (band_format r)) else row_info ws r)"
      by (simp only: fold.simps id_apply if_False)
  next
    case True
    from "1.prems" have o: "odd (start + 2)" by simp
    note b = row_info_band [OF assms]
    from "1.prems" True have u: "start + 1 \<le> u"
      unfolding u_def by (rule band_range_next)
    from True have "py_range start stop 2 = start # py_range (start + 2) stop 2"
      by (subst py_range.simps) simp
    then have "row_info (fold band (py_range start stop 2) ws) r =
        row_info (fold band (py_range (start + 2) stop 2) (band start ws)) r"
      by simp
    also have "\<dots> = (if start + 2 \<le> r \<and> r \<le> u \<and> r < xls_rowmax
        then Some (None, Some (band_format r)) else row_info (band start ws) r)"
      unfolding u_def using True o by (intro "1.hyps") simp_all
    also have "\<dots> = (if start \<le> r \<and> r \<le> u \<and> r < xls_rowmax
        then Some (None, Some (band_format r)) else row_info ws r)"
    proof -
      consider "r < start" | "r = start" | "r = start + 1" | "start + 2 \<le> r" by linarith
      then show ?thesis
      proof cases
        case 1 then show ?thesis by (simp add: b)
      next
        case 2 with u "1.prems" show ?thesis by (simp add: b band_format_def)
      next
        case 3 with u "1.prems" show ?thesis by (simp add: b band_format_def)
      next
        case 4 then show ?thesis by (simp add: b)
      qed
    qed
    finally show "row_info (fold band (py_range start stop 2) ws) r =
        (if start \<le> r \<and> r \<le> u \<and> r < xls_rowmax
         then Some (None, Some (band_format r)) else row_info ws r)" .
  qed
qed

lemma row_info_fold_band:
  assumes "is_band band"
  shows "row_info (fold band (py_range 1 (n + 1) 2) ws) r =
     (if 1 \<le> r \<and> r \<le> last_banded n \<and> r < xls_rowmax then Some (None, Some (band_format r))
      else row_info ws r)"
proof -
  have "last_banded n = (if even (n + 1) then n + 1 else n + 1 - 1)"
    by (simp add: last_banded_def)
  with row_info_fold_band_aux [OF assms, of 1 "n + 1" ws r] show ?thesis by simp
qed

lemma fold_write_other:
  "k \<notin> fst ` set kvs \<Longrightarrow> fold write_cell kvs m k = m k"
  by (induction kvs arbitrary: m) (auto simp: write_cell_def)

lemma frame_cells_rows: "((r, c), v) \<in> set (frame_cells df) \<Longrightarrow> r \<le> len_df df"
  by (auto simp: frame_cells_def len_df_def in_set_enumerate_eq)

lemma cells_write_frame:
  "len_df df < r \<Longrightarrow> cells (write_cells (frame_cells df) ws) (r, c) = cells ws (r, c)"
proof -
  assume "len_df df < r"
  then have "(r, c) \<notin> fst ` set (frame_cells df)"
    using frame_cells_rows [of r c _ df] by force
  then show ?thesis by (simp add: write_cells_def fold_write_other)
qed

subsection \<open>One frame, and all of them\<close>

text \<open>
  When the writing of a frame raises nothing, what it does to the sheet of its name is
  given by \<open>sheet_with_Inr\<close>; \<open>sheet_with_succeeds\<close> says when it raises nothing. A row
  that has its band format keeps it when further frames are written, to the same sheet or
  to another.
\<close>

lemma default_name_nonempty: "lit ''Sheet'' @ s \<noteq> []"
  by (simp add: lit_def)

lemma sheet_with_Inr:
  assumes "sheet_with lower h band (df, name) writer = Inr writer'"
  shows "writer' = writer
       \<lparr>sheetname_count :=
          (if sheets writer name = None then sheetname_count writer + 1
           else sheetname_count writer),
        sheet_names :=
          (if sheets writer name = None then sheet_names writer @ [name] else sheet_names writer),
        sheets := (sheets writer)(name \<mapsto>
          fold band (py_range 1 (len_df df + 1) 2)
            (set_row 0 (Some h) (Some format_header)
              (write_cells (frame_cells df)
                (case sheets writer name of None \<Rightarrow> new_worksheet | Some ws \<Rightarrow> ws))))\<rparr>"
proof (cases "sheets writer name")
  case (Some ws)
  with assms show ?thesis
    by (simp add: sheet_with_def to_excel_def getitem_def bindE_def Let_def split: if_splits)
next
  case None
  show ?thesis
  proof (cases "name = []")
    case True
    with None assms show ?thesis
      by (auto simp: sheet_with_def to_excel_def add_worksheet_def check_sheetname_def
          getitem_def bindE_def Let_def default_name_nonempty split: if_splits)
  next
    case False
    with None assms show ?thesis
      by (auto simp: sheet_with_def to_excel_def add_worksheet_def check_sheetname_def
          getitem_def bindE_def Let_def split: if_splits)
  qed
qed

lemma sheet_with_Inr_fits:
  assumes "sheet_with lower h band (df, name) writer = Inr writer'"
  shows "fits df"
  using assms
  by (auto simp: sheet_with_def to_excel_def bindE_def fits_def split: if_splits)

lemma sheet_with_succeeds:
  assumes "fits df"
    and "sheets writer name \<noteq> None \<or>
      (valid_name name \<and> (\<forall>n \<in> set (sheet_names writer). lower name \<noteq> lower n))"
  shows "\<exists>writer'. sheet_with lower h band (df, name) writer = Inr writer'"
proof (cases "sheets writer name")
  case (Some ws)
  with assms(1) show ?thesis
    by (simp add: sheet_with_def to_excel_def getitem_def bindE_def Let_def fits_def)
next
  case None
  with assms show ?thesis
    by (auto simp: sheet_with_def to_excel_def add_worksheet_def check_sheetname_def
        getitem_def bindE_def Let_def fits_def valid_name_def)
qed

lemma foldE_Cons_Inr:
  "foldE f (x # xs) s = Inr s' \<Longrightarrow> \<exists>w. f x s = Inr w \<and> foldE f xs w = Inr s'"
  by (cases "f x s") (simp_all add: bindE_def)

lemma step_row_format_other:
  "sheet_with lower h band (df, name) writer = Inr writer' \<Longrightarrow> name' \<noteq> name \<Longrightarrow>
     row_format writer' name' r = row_format writer name' r"
  by (auto dest!: sheet_with_Inr simp: row_format_def)

lemma step_row_format_same:
  assumes "is_band band" and "sheet_with lower h band (df, name) writer = Inr writer'"
    and "1 \<le> r"
  shows "row_format writer' name r =
     (if r \<le> last_banded (len_df df) \<and> r < xls_rowmax then Some (band_format r)
      else row_format writer name r)"
proof -
  let ?old = "case sheets writer name of None \<Rightarrow> new_worksheet | Some ws \<Rightarrow> ws"
  from sheet_with_Inr [OF assms(2)] have "sheets writer' name =
      Some (fold band (py_range 1 (len_df df + 1) 2)
        (set_row 0 (Some h) (Some format_header) (write_cells (frame_cells df) ?old)))"
    by simp
  moreover have "row_info (set_row 0 (Some h) (Some format_header)
      (write_cells (frame_cells df) ?old)) r = row_info ?old r"
    using assms(3) by (simp add: set_row_def write_cells_def)
  moreover have "(case row_info ?old r of None \<Rightarrow> None | Some (height, fmt) \<Rightarrow> fmt) =
      row_format writer name r"
    by (simp add: row_format_def new_worksheet_def split: option.splits)
  moreover note row_info_fold_band [OF assms(1), of "len_df df"
      "set_row 0 (Some h) (Some format_header) (write_cells (frame_cells df) ?old)" r]
  ultimately show ?thesis
    using assms(3) by (simp add: row_format_def)
qed

lemma step_banded:
  assumes "is_band band" and "sheet_with lower h band (df', name') writer = Inr writer'"
    and "1 \<le> r"
    and "row_format writer name r = Some (band_format r)"
  shows "row_format writer' name r = Some (band_format r)"
proof (cases "name = name'")
  case True
  with step_row_format_same [OF assms(1) _ assms(3), of lower h df' name' writer writer']
    assms(2,4)
  show ?thesis by simp
next
  case False
  with step_row_format_other [OF assms(2), of name r] assms(4) show ?thesis by simp
qed

lemma foldE_banded:
  assumes "is_band band"
  shows "foldE (sheet_with lower h band) ps writer = Inr writer' \<Longrightarrow> 1 \<le> r \<Longrightarrow>
     r < xls_rowmax \<Longrightarrow>
     ((df, name) \<in> set ps \<and> r \<le> last_banded (len_df df)) \<or>
       row_format writer name r = Some (band_format r) \<Longrightarrow>
     row_format writer' name r = Some (band_format r)"
proof (induction ps arbitrary: writer)
  case Nil
  then show ?case by simp
next
  case (Cons p ps)
  obtain df' name' where p: "p = (df', name')" by (cases p)
  from foldE_Cons_Inr [OF Cons.prems(1)] p obtain w where
    w: "sheet_with lower h band (df', name') writer = Inr w"
    and rest: "foldE (sheet_with lower h band) ps w = Inr writer'"
    by blast
  have "((df, name) \<in> set ps \<and> r \<le> last_banded (len_df df)) \<or>
      row_format w name r = Some (band_format r)"
  proof (cases "(df, name) \<in> set ps \<and> r \<le> last_banded (len_df df)")
    case True
    then show ?thesis by simp
  next
    case False
    with Cons.prems(4) consider "(df, name) = p" "r \<le> last_banded (len_df df)"
      | "row_format writer name r = Some (band_format r)" by auto
    then have "row_format w name r = Some (band_format r)"
    proof cases
      case 1
      with p w step_row_format_same [OF assms _ Cons.prems(2), of lower h df name writer w]
        Cons.prems(3)
      show ?thesis by simp
    next
      case 2
      with step_banded [OF assms w Cons.prems(2)] show ?thesis by simp
    qed
    then show ?thesis by simp
  qed
  with Cons.IH [OF rest Cons.prems(2,3)] show ?case by simp
qed

lemma foldE_beyond:
  assumes "is_band band"
  shows "foldE (sheet_with lower h band) ps writer = Inr writer' \<Longrightarrow> xls_rowmax \<le> r \<Longrightarrow>
     row_format writer' name r = row_format writer name r"
proof (induction ps arbitrary: writer)
  case Nil
  then show ?case by simp
next
  case (Cons p ps)
  obtain df' name' where p: "p = (df', name')" by (cases p)
  from foldE_Cons_Inr [OF Cons.prems(1)] p obtain w where
    w: "sheet_with lower h band (df', name') writer = Inr w"
    and rest: "foldE (sheet_with lower h band) ps w = Inr writer'"
    by blast
  from Cons.prems(2) have r: "1 \<le> r" by (simp add: xls_rowmax_def)
  have "row_format w name r = row_format writer name r"
  proof (cases "name = name'")
    case True
    with step_row_format_same [OF assms w r] Cons.prems(2) show ?thesis by simp
  next
    case False
    with step_row_format_other [OF w, of name r] show ?thesis by simp
  qed
  with Cons.IH [OF rest Cons.prems(2)] show ?case by simp
qed

lemma step_sheet_cell:
  assumes "is_band band" and "sheet_with lower h band (df', name') writer = Inr writer'"
    and "name' = name \<longrightarrow> len_df df' < r"
  shows "sheet_cell writer' name (r, c) = sheet_cell writer name (r, c)"
proof (cases "name' = name")
  case False
  with sheet_with_Inr [OF assms(2)] show ?thesis by (auto simp: sheet_cell_def)
next
  case True
  with assms(3) have r: "len_df df' < r" by simp
  let ?old = "case sheets writer name of None \<Rightarrow> new_worksheet | Some ws \<Rightarrow> ws"
  from sheet_with_Inr [OF assms(2)] True have "sheets writer' name =
      Some (fold band (py_range 1 (len_df df' + 1) 2)
        (set_row 0 (Some h) (Some format_header) (write_cells (frame_cells df') ?old)))"
    by simp
  moreover have "cells (set_row 0 (Some h) (Some format_header)
      (write_cells (frame_cells df') ?old)) (r, c) = cells ?old (r, c)"
    using cells_write_frame [OF r] by (simp add: set_row_def)
  moreover have "cells ?old (r, c) = sheet_cell writer name (r, c)"
    by (simp add: sheet_cell_def new_worksheet_def split: option.splits)
  ultimately show ?thesis
    by (simp add: sheet_cell_def cells_fold_band [OF assms(1)])
qed

lemma foldE_sheet_cell:
  assumes "is_band band"
  shows "foldE (sheet_with lower h band) ps writer = Inr writer' \<Longrightarrow>
     \<forall>(df', name') \<in> set ps. name' = name \<longrightarrow> len_df df' < r \<Longrightarrow>
     sheet_cell writer' name (r, c) = sheet_cell writer name (r, c)"
proof (induction ps arbitrary: writer)
  case Nil
  then show ?case by simp
next
  case (Cons p ps)
  obtain df' name' where p: "p = (df', name')" by (cases p)
  from foldE_Cons_Inr [OF Cons.prems(1)] p obtain w where
    w: "sheet_with lower h band (df', name') writer = Inr w"
    and rest: "foldE (sheet_with lower h band) ps w = Inr writer'"
    by blast
  from Cons.prems(2) p have "name' = name \<longrightarrow> len_df df' < r" by simp
  from step_sheet_cell [OF assms w this]
  have "sheet_cell w name (r, c) = sheet_cell writer name (r, c)" .
  moreover from Cons.prems(2) have "\<forall>(df', name') \<in> set ps. name' = name \<longrightarrow> len_df df' < r"
    by simp
  from Cons.IH [OF rest this] have "sheet_cell writer' name (r, c) = sheet_cell w name (r, c)" .
  ultimately show ?case by simp
qed

lemma foldE_sheet_names:
  "foldE (sheet_with lower h band) ps writer = Inr writer' \<Longrightarrow>
     dom (sheets writer) = set (sheet_names writer) \<Longrightarrow>
     dom (sheets writer') = set (sheet_names writer') \<and>
     set (sheet_names writer') = set (sheet_names writer) \<union> snd ` set ps \<and>
     (distinct (sheet_names writer) \<longrightarrow> distinct (sheet_names writer')) \<and>
     (distinct (sheet_names writer @ map snd ps) \<longrightarrow>
        sheet_names writer' = sheet_names writer @ map snd ps) \<and>
     (sheetname_count writer = length (sheet_names writer) \<longrightarrow>
        sheetname_count writer' = length (sheet_names writer'))"
proof (induction ps arbitrary: writer)
  case Nil
  then show ?case by simp
next
  case (Cons p ps)
  obtain df name where p: "p = (df, name)" by (cases p)
  from foldE_Cons_Inr [OF Cons.prems(1)] p obtain w where
    w: "sheet_with lower h band (df, name) writer = Inr w"
    and rest: "foldE (sheet_with lower h band) ps w = Inr writer'"
    by blast
  from sheet_with_Inr [OF w] have n: "sheet_names w =
      (if sheets writer name = None then sheet_names writer @ [name] else sheet_names writer)"
    and d: "dom (sheets w) = insert name (dom (sheets writer))"
    and k: "sheetname_count w =
      (if sheets writer name = None then sheetname_count writer + 1 else sheetname_count writer)"
    by simp_all
  from Cons.prems(2) have m: "sheets writer name = None \<longleftrightarrow> name \<notin> set (sheet_names writer)"
    by (auto simp: domIff)
  from n d m Cons.prems(2) have dw: "dom (sheets w) = set (sheet_names w)"
    by auto
  from Cons.IH [OF rest dw] n m p k show ?case
    by auto
qed

lemma foldE_sheet_with_succeeds:
  "\<forall>(df, name) \<in> set ps. fits df \<and> valid_name name \<Longrightarrow>
   inj_on lower (set (sheet_names writer) \<union> snd ` set ps) \<Longrightarrow>
   dom (sheets writer) = set (sheet_names writer) \<Longrightarrow>
   \<exists>writer'. foldE (sheet_with lower h band) ps writer = Inr writer'"
proof (induction ps arbitrary: writer)
  case Nil
  show ?case by simp
next
  case (Cons p ps)
  obtain df name where p: "p = (df, name)" by (cases p)
  from Cons.prems(1) p have f: "fits df" and v: "valid_name name" by simp_all
  have "sheets writer name \<noteq> None \<or>
      (valid_name name \<and> (\<forall>n \<in> set (sheet_names writer). lower name \<noteq> lower n))"
  proof (cases "sheets writer name")
    case None
    with Cons.prems(3) have "name \<notin> set (sheet_names writer)" by (auto simp: domIff)
    moreover have "lower name = lower n \<Longrightarrow> name = n" if "n \<in> set (sheet_names writer)" for n
      using Cons.prems(2) that p by (auto dest: inj_onD)
    ultimately have "\<forall>n \<in> set (sheet_names writer). lower name \<noteq> lower n" by blast
    with v show ?thesis by simp
  next
    case (Some ws)
    then show ?thesis by simp
  qed
  from sheet_with_succeeds [OF f this] obtain w where
    w: "sheet_with lower h band (df, name) writer = Inr w" by blast
  from sheet_with_Inr [OF w] have n: "sheet_names w =
      (if sheets writer name = None then sheet_names writer @ [name] else sheet_names writer)"
    and d: "dom (sheets w) = insert name (dom (sheets writer))"
    by simp_all
  from Cons.prems(3) have m: "sheets writer name = None \<longleftrightarrow> name \<notin> set (sheet_names writer)"
    by (auto simp: domIff)
  from n d m Cons.prems(3) have dw: "dom (sheets w) = set (sheet_names w)"
    by auto
  from n p have "set (sheet_names w) \<union> snd ` set ps \<subseteq>
      set (sheet_names writer) \<union> snd ` set (p # ps)"
    by auto
  with Cons.prems(2) have i: "inj_on lower (set (sheet_names w) \<union> snd ` set ps)"
    by (rule inj_on_subset)
  from Cons.prems(1) have "\<forall>(df, name) \<in> set ps. fits df \<and> valid_name name" by simp
  from Cons.IH [OF this i dw] w p show ?case by (simp add: bindE_def)
qed

lemma foldE_fits:
  "foldE (sheet_with lower h band) ps writer = Inr writer' \<Longrightarrow> (df, name) \<in> set ps \<Longrightarrow> fits df"
proof (induction ps arbitrary: writer)
  case Nil
  then show ?case by simp
next
  case (Cons p ps)
  obtain df' name' where p: "p = (df', name')" by (cases p)
  from foldE_Cons_Inr [OF Cons.prems(1)] p obtain w where
    w: "sheet_with lower h band (df', name') writer = Inr w"
    and rest: "foldE (sheet_with lower h band) ps w = Inr writer'"
    by blast
  from Cons.prems(2) p sheet_with_Inr_fits [OF w] Cons.IH [OF rest] show ?case by auto
qed

lemma close_book_Inr:
  assumes "sheetname_count book = length (sheet_names book)"
  shows "close_book lower book =
     Inr (if sheet_names book = []
          then book\<lparr>sheetname_count := 1, sheet_names := [lit ''Sheet1''],
                 sheets := (sheets book)(lit ''Sheet1'' \<mapsto> new_worksheet)\<rparr>
          else book)"
proof (cases "sheet_names book = []")
  case False
  then show ?thesis by (simp add: close_book_def)
next
  case True
  with assms have c: "sheetname_count book = 0" by simp
  have d: "dec_digits (Suc 0) = [49]" by (subst dec_digits.simps) simp
  have v: "lit ''Sheet'' @ [49] = lit ''Sheet1''" by (simp add: lit_def)
  from True c show ?thesis
    by (simp add: close_book_def add_worksheet_def check_sheetname_def bindE_def Let_def d
        default_name_nonempty)
      (simp add: lit_def invalid_char_def startswith_def endswith_def)
qed

lemma sheet_with_duplicate:
  assumes "fits df" and "sheets writer name = None" and "valid_name name"
    and "\<exists>n \<in> set (sheet_names writer). lower name = lower n"
  shows "sheet_with lower h band (df, name) writer = Inl DuplicateWorksheetName"
  using assms
  by (auto simp: sheet_with_def to_excel_def add_worksheet_def check_sheetname_def
      bindE_def Let_def fits_def valid_name_def)

subsection \<open>The writer when it is saved\<close>

lemma excel_writer_eq:
  "excel_writer lower dfs names =
     foldE (sheet_with lower 30 band_excel) (zip dfs names)
       (new_workbook\<lparr>default_font_size := 15\<rparr>)"
  by (simp add: excel_writer_def sheet_excel_eq)

lemma effectiveness_writer_eq:
  "effectiveness_writer lower dfs names =
     foldE (sheet_with lower 20 band_effectiveness) (zip dfs names)
       (new_workbook\<lparr>default_font_size := 15\<rparr>)"
  by (simp add: effectiveness_writer_def sheet_effectiveness_eq)

lemma writer_banded:
  assumes "is_band band"
    and "foldE (sheet_with lower h band) (zip dfs names)
      (new_workbook\<lparr>default_font_size := 15\<rparr>) = Inr writer"
    and "(df, name) \<in> set (zip dfs names)" and "1 \<le> r" and "r \<le> last_banded (len_df df)"
    and "r < xls_rowmax"
  shows "row_format writer name r = Some (band_format r)"
  using foldE_banded [OF assms(1,2,4,6), of df name] assms(3,5) by simp

lemma writer_beyond:
  assumes "is_band band"
    and "foldE (sheet_with lower h band) (zip dfs names)
      (new_workbook\<lparr>default_font_size := 15\<rparr>) = Inr writer"
    and "xls_rowmax \<le> r"
  shows "row_format writer name r = None"
  using foldE_beyond [OF assms(1,2,3), of name]
  by (simp add: row_format_def new_workbook_def)

lemma writer_cells:
  assumes "is_band band"
    and "foldE (sheet_with lower h band) (zip dfs names)
      (new_workbook\<lparr>default_font_size := 15\<rparr>) = Inr writer"
    and "\<forall>(df', name') \<in> set (zip dfs names). name' = name \<longrightarrow> len_df df' < r"
  shows "sheet_cell writer name (r, c) = None"
  using foldE_sheet_cell [OF assms(1,2,3), of c]
  by (simp add: sheet_cell_def new_workbook_def)

lemma writer_sheet_names:
  assumes "foldE (sheet_with lower h band) (zip dfs names)
      (new_workbook\<lparr>default_font_size := 15\<rparr>) = Inr writer"
  shows "distinct (sheet_names writer)"
    and "set (sheet_names writer) = set (take (min (length dfs) (length names)) names)"
    and "distinct (take (min (length dfs) (length names)) names) \<Longrightarrow>
      sheet_names writer = take (min (length dfs) (length names)) names"
    and "sheetname_count writer = length (sheet_names writer)"
proof -
  have m: "map snd (zip dfs names) = take (min (length dfs) (length names)) names"
    by (simp add: map_snd_zip_take)
  have "dom (sheets (new_workbook\<lparr>default_font_size := 15\<rparr> :: 'a workbook)) =
      set (sheet_names (new_workbook\<lparr>default_font_size := 15\<rparr> :: 'a workbook))"
    by (simp add: new_workbook_def)
  from foldE_sheet_names [OF assms this]
  have "distinct (sheet_names writer)"
    and s: "set (sheet_names writer) = snd ` set (zip dfs names)"
    and d: "distinct (map snd (zip dfs names)) \<longrightarrow> sheet_names writer = map snd (zip dfs names)"
    and k: "sheetname_count writer = length (sheet_names writer)"
    by (simp_all add: new_workbook_def)
  then show "distinct (sheet_names writer)" by simp
  from s m show "set (sheet_names writer) = set (take (min (length dfs) (length names)) names)"
    by (metis set_map)
  from d m show "distinct (take (min (length dfs) (length names)) names) \<Longrightarrow>
      sheet_names writer = take (min (length dfs) (length names)) names"
    by simp
  from k show "sheetname_count writer = length (sheet_names writer)" .
qed

lemma writer_close:
  assumes "foldE (sheet_with lower h band) (zip dfs names)
      (new_workbook\<lparr>default_font_size := 15\<rparr>) = Inr writer"
  shows "\<exists>book. close_book lower writer = Inr book \<and>
     sheet_names book =
       (if min (length dfs) (length names) = 0 then [lit ''Sheet1''] else sheet_names writer)"
proof -
  define m where "m = min (length dfs) (length names)"
  note n = writer_sheet_names [OF assms]
  have "(sheet_names writer = []) = (set (sheet_names writer) = {})" by simp
  also have "\<dots> = (set (take m names) = {})"
    using n(2) unfolding m_def by simp
  also have "\<dots> = (m = 0)"
    unfolding m_def by (auto simp: min_def)
  finally have e: "sheet_names writer = [] \<longleftrightarrow> m = 0" .
  have "\<exists>book. close_book lower writer = Inr book \<and>
     sheet_names book = (if m = 0 then [lit ''Sheet1''] else sheet_names writer)"
    using e close_book_Inr [OF n(4), of lower] by (cases "m = 0") simp_all
  then show ?thesis unfolding m_def .
qed

lemma writer_succeeds:
  assumes "\<forall>(df, name) \<in> set (zip dfs names). fits df \<and> valid_name name"
    and "inj_on lower (set (take (min (length dfs) (length names)) names))"
  shows "\<exists>writer. foldE (sheet_with lower h band) (zip dfs names)
      (new_workbook\<lparr>default_font_size := 15\<rparr>) = Inr writer"
proof -
  have "map snd (zip dfs names) = take (min (length dfs) (length names)) names"
    by (simp add: map_snd_zip_take)
  then have "snd ` set (zip dfs names) = set (take (min (length dfs) (length names)) names)"
    by (metis set_map)
  with assms(2) have "inj_on lower
      (set (sheet_names (new_workbook\<lparr>default_font_size := 15\<rparr> :: 'a workbook)) \<union>
       snd ` set (zip dfs names))"
    by (simp add: new_workbook_def)
  moreover have "dom (sheets (new_workbook\<lparr>default_font_size := 15\<rparr> :: 'a workbook)) =
      set (sheet_names (new_workbook\<lparr>default_font_size := 15\<rparr> :: 'a workbook))"
    by (simp add: new_workbook_def)
  ultimately show ?thesis
    using assms(1) by (intro foldE_sheet_with_succeeds)
qed

lemma zip_take_min:
  "zip (take (min (length xs) (length ys)) xs) (take (min (length xs) (length ys)) ys) = zip xs ys"
  by (induction xs ys rule: list_induct2') simp_all

lemma writer_take:
  "excel_writer lower (take (min (length dfs) (length names)) dfs)
     (take (min (length dfs) (length names)) names) = excel_writer lower dfs names"
  "effectiveness_writer lower (take (min (length dfs) (length names)) dfs)
     (take (min (length dfs) (length names)) names) = effectiveness_writer lower dfs names"
  by (simp_all only: excel_writer_def effectiveness_writer_def zip_take_min)

lemma formats_differ: "data_format1 \<noteq> data_format2"
  by (simp add: data_format1_def data_format2_def)

lemma len_example_frame [simp]: "len_df (example_frame n) = n"
  by (simp add: len_df_def example_frame_def)

lemma fits_example_frame: "n \<le> 1048576 \<Longrightarrow> fits (example_frame n)"
  by (simp add: fits_def max_rows_def max_cols_def) (simp add: example_frame_def)

lemma valid_example_names:
  "valid_name (lit ''Sheet1'')" "valid_name (lit ''a'')" "valid_name (lit ''b'')"
  "valid_name (lit ''A'')"
  by (simp_all add: valid_name_def lit_def invalid_char_def startswith_def endswith_def)

lemma example_writers:
  assumes "n \<le> 1048576"
  shows "\<exists>writer. excel_writer lower [example_frame n] [lit ''Sheet1''] = Inr writer"
    and "\<exists>writer. effectiveness_writer lower [example_frame n] [lit ''Sheet1''] = Inr writer"
  unfolding excel_writer_eq effectiveness_writer_eq
  by (rule writer_succeeds; simp add: fits_example_frame [OF assms] valid_example_names)+

subsection \<open>Row banding\<close>

text \<open>
  For a frame of five rows the loop gives rows 1 to 5 the formats first, second, first,
  second, first: rows 1 and 2 differ, and so do rows 3 and 4.
\<close>

theorem row_banding_pairs_counterexample:
  "\<exists>writer. excel_writer ascii_lower [example_frame 5] [lit ''Sheet1''] = Inr writer \<and>
     map (row_format writer (lit ''Sheet1'')) [1, 2, 3, 4, 5] =
       [Some data_format1, Some data_format2, Some data_format1, Some data_format2,
        Some data_format1] \<and>
     data_format1 \<noteq> data_format2"
proof -
  from example_writers(1) [of 5 ascii_lower] obtain writer where
    w: "excel_writer ascii_lower [example_frame 5] [lit ''Sheet1''] = Inr writer"
    by auto
  have "row_format writer (lit ''Sheet1'') r = Some (band_format r)" if "1 \<le> r" "r \<le> 5" for r
    using w that
    by (intro writer_banded [OF is_band_excel, of ascii_lower 30 "[example_frame 5]"
          "[lit ''Sheet1'']" writer "example_frame 5"])
      (simp_all add: excel_writer_eq last_banded_def xls_rowmax_def)
  then have "map (row_format writer (lit ''Sheet1'')) [1, 2, 3, 4, 5] =
       [Some data_format1, Some data_format2, Some data_format1, Some data_format2,
        Some data_format1]"
    by (simp add: band_format_def)
  with w formats_differ show ?thesis by (intro exI [of _ writer]) simp
qed

text \<open>
  C2, as the code has it. Whenever either report builder gets as far as saving the
  writer, then for every frame written the rows of its sheet from row 1 to the last data
  row, as far as they are rows of the sheet (their index is below 1048576), alternate one
  by one between the two formats: an odd row has the first (\<open>#BBCCE2\<close>), an even row
  the second (\<open>#DEE6EF\<close>).
\<close>

theorem row_banding_alternates:
  assumes "(df, name) \<in> set (zip dataframe_list sheet_name_list)"
    and "1 \<le> r" and "r \<le> len_df df" and "r < xls_rowmax"
  shows "(excel_writer lower dataframe_list sheet_name_list = Inr writer \<longrightarrow>
            row_format writer name r = Some (if odd r then data_format1 else data_format2)) \<and>
         (effectiveness_writer lower dataframe_list sheet_name_list = Inr writer \<longrightarrow>
            row_format writer name r = Some (if odd r then data_format1 else data_format2))"
proof (intro conjI impI)
  from assms(3) have l: "r \<le> last_banded (len_df df)"
    by (simp add: last_banded_def)
  {
    assume w: "excel_writer lower dataframe_list sheet_name_list = Inr writer"
    from writer_banded [OF is_band_excel w [unfolded excel_writer_eq] assms(1,2) l assms(4)]
    show "row_format writer name r = Some (if odd r then data_format1 else data_format2)"
      by (simp add: band_format_def)
  }
  {
    assume w: "effectiveness_writer lower dataframe_list sheet_name_list = Inr writer"
    from writer_banded [OF is_band_effectiveness w [unfolded effectiveness_writer_eq]
        assms(1,2) l assms(4)]
    show "row_format writer name r = Some (if odd r then data_format1 else data_format2)"
      by (simp add: band_format_def)
  }
qed

theorem row_banding_alternates_witness:
  "(\<exists>writer. excel_writer ascii_lower [example_frame 5] [lit ''Sheet1''] = Inr writer \<and>
      row_format writer (lit ''Sheet1'') 2 = Some data_format2) \<and>
   (\<exists>writer. effectiveness_writer ascii_lower [example_frame 5] [lit ''Sheet1''] = Inr writer \<and>
      row_format writer (lit ''Sheet1'') 2 = Some data_format2)"
proof -
  from example_writers [of 5 ascii_lower] obtain w1 w2 :: "nat workbook" where
    w: "excel_writer ascii_lower [example_frame 5] [lit ''Sheet1''] = Inr w1"
      "effectiveness_writer ascii_lower [example_frame 5] [lit ''Sheet1''] = Inr w2"
    by auto
  from row_banding_alternates [of "example_frame 5" "lit ''Sheet1''" "[example_frame 5]"
      "[lit ''Sheet1'']" 2 ascii_lower w1]
    row_banding_alternates [of "example_frame 5" "lit ''Sheet1''" "[example_frame 5]"
      "[lit ''Sheet1'']" 2 ascii_lower w2] w
  show ?thesis by (simp add: xls_rowmax_def)
qed

text \<open>
  A frame of 1048575 rows, an odd number, is written; row 1048576 is beyond the last row
  of the sheet, the engine ignores the \<open>set_row\<close> call for it, and the row has no
  format.
\<close>

theorem banding_beyond_sheet_counterexample:
  "odd (len_df (example_frame 1048575)) \<and>
   (\<exists>writer. excel_writer ascii_lower [example_frame 1048575] [lit ''Sheet1''] = Inr writer \<and>
      row_format writer (lit ''Sheet1'') (len_df (example_frame 1048575) + 1) = None)"
proof -
  from example_writers(1) [of 1048575 ascii_lower] obtain writer where
    w: "excel_writer ascii_lower [example_frame 1048575] [lit ''Sheet1''] = Inr writer"
    by auto
  have "row_format writer (lit ''Sheet1'') (1048575 + 1) = None"
    by (rule writer_beyond [OF is_band_excel w [unfolded excel_writer_eq]])
      (simp add: xls_rowmax_def)
  with w show ?thesis by simp
qed

text \<open>
  C9, as the code has it. When a frame has an odd number \<open>n\<close> of rows and the report
  builder gets as far as saving the writer, row \<open>n + 1\<close> of the frame's sheet has the
  second format if it is a row of the sheet (\<open>n + 1\<close> is below 1048576), and no format
  otherwise; unless a longer frame was written to the same sheet, that row holds no cell.
\<close>

theorem banding_past_last_row:
  assumes "(df, name) \<in> set (zip dataframe_list sheet_name_list)"
    and "odd (len_df df)"
  shows "(excel_writer lower dataframe_list sheet_name_list = Inr writer \<longrightarrow>
            row_format writer name (len_df df + 1) =
              (if len_df df + 1 < xls_rowmax then Some data_format2 else None) \<and>
            ((\<forall>(df', name') \<in> set (zip dataframe_list sheet_name_list).
                 name' = name \<longrightarrow> len_df df' \<le> len_df df) \<longrightarrow>
             (\<forall>c. sheet_cell writer name (len_df df + 1, c) = None))) \<and>
         (effectiveness_writer lower dataframe_list sheet_name_list = Inr writer \<longrightarrow>
            row_format writer name (len_df df + 1) =
              (if len_df df + 1 < xls_rowmax then Some data_format2 else None) \<and>
            ((\<forall>(df', name') \<in> set (zip dataframe_list sheet_name_list).
                 name' = name \<longrightarrow> len_df df' \<le> len_df df) \<longrightarrow>
             (\<forall>c. sheet_cell writer name (len_df df + 1, c) = None)))"
proof -
  from assms(2) have l: "len_df df + 1 \<le> last_banded (len_df df)"
    and f: "band_format (len_df df + 1) = data_format2"
    by (simp_all add: last_banded_def band_format_def)
  have c: "\<forall>(df', name') \<in> set (zip dataframe_list sheet_name_list).
      name' = name \<longrightarrow> len_df df' < len_df df + 1"
    if "\<forall>(df', name') \<in> set (zip dataframe_list sheet_name_list).
      name' = name \<longrightarrow> len_df df' \<le> len_df df"
    using that by fastforce
  have g: "row_format writer name (len_df df + 1) =
        (if len_df df + 1 < xls_rowmax then Some data_format2 else None) \<and>
      ((\<forall>(df', name') \<in> set (zip dataframe_list sheet_name_list).
           name' = name \<longrightarrow> len_df df' \<le> len_df df) \<longrightarrow>
       (\<forall>c. sheet_cell writer name (len_df df + 1, c) = None))"
    if b: "is_band band"
      and w: "foldE (sheet_with lower h band) (zip dataframe_list sheet_name_list)
        (new_workbook\<lparr>default_font_size := 15\<rparr>) = Inr writer"
    for h and band :: "nat \<Rightarrow> 'a worksheet \<Rightarrow> 'a worksheet"
  proof (intro conjI impI)
    show "row_format writer name (len_df df + 1) =
        (if len_df df + 1 < xls_rowmax then Some data_format2 else None)"
    proof (cases "len_df df + 1 < xls_rowmax")
      case True
      from writer_banded [OF b w assms(1) _ l True] f True show ?thesis by simp
    next
      case False
      then have "xls_rowmax \<le> len_df df + 1" by simp
      from writer_beyond [OF b w this] False show ?thesis by simp
    qed
  next
    assume "\<forall>(df', name') \<in> set (zip dataframe_list sheet_name_list).
           name' = name \<longrightarrow> len_df df' \<le> len_df df"
    from writer_cells [OF b w c [OF this]]
    show "\<forall>c. sheet_cell writer name (len_df df + 1, c) = None" by blast
  qed
  from g [OF is_band_excel] g [OF is_band_effectiveness] show ?thesis
    by (simp only: excel_writer_eq effectiveness_writer_eq) blast
qed

theorem banding_past_last_row_witness:
  "(\<exists>writer. excel_writer ascii_lower [example_frame 5] [lit ''Sheet1''] = Inr writer \<and>
      row_format writer (lit ''Sheet1'') 6 = Some data_format2 \<and>
      (\<forall>c. sheet_cell writer (lit ''Sheet1'') (6, c) = None)) \<and>
   (\<exists>writer. effectiveness_writer ascii_lower [example_frame 5] [lit ''Sheet1''] = Inr writer \<and>
      row_format writer (lit ''Sheet1'') 6 = Some data_format2 \<and>
      (\<forall>c. sheet_cell writer (lit ''Sheet1'') (6, c) = None))"
proof -
  from example_writers [of 5 ascii_lower] obtain w1 w2 :: "nat workbook" where
    w: "excel_writer ascii_lower [example_frame 5] [lit ''Sheet1''] = Inr w1"
      "effectiveness_writer ascii_lower [example_frame 5] [lit ''Sheet1''] = Inr w2"
    by auto
  from banding_past_last_row [of "example_frame 5" "lit ''Sheet1''" "[example_frame 5]"
      "[lit ''Sheet1'']" ascii_lower w1]
    banding_past_last_row [of "example_frame 5" "lit ''Sheet1''" "[example_frame 5]"
      "[lit ''Sheet1'']" ascii_lower w2] w
  show ?thesis by (simp add: xls_rowmax_def)
qed

subsection \<open>Lists of different lengths\<close>

text \<open>
  Three frames and the sheet names \<open>a\<close>, \<open>a\<close>: the two pairs are written to one sheet,
  not to two. Three frames and the sheet names \<open>a\<close>, \<open>A\<close>: the engine raises
  \<open>DuplicateWorksheetName\<close>. No frame and one sheet name: the workbook that is saved
  has one sheet, \<open>Sheet1\<close>, not none.
\<close>

theorem sheet_count_counterexample:
  "min (length [example_frame 1, example_frame 1, example_frame 1])
       (length [lit ''a'', lit ''a'']) = 2 \<and>
   (\<exists>writer. excel_writer ascii_lower [example_frame 1, example_frame 1, example_frame 1]
       [lit ''a'', lit ''a''] = Inr writer \<and> sheet_names writer = [lit ''a'']) \<and>
   generate_excel ascii_lower example_save example_put_object
     [example_frame 1, example_frame 1, example_frame 1] [lit ''a'', lit ''A'']
     None None False None = Inl DuplicateWorksheetName \<and>
   (\<exists>writer book. excel_writer ascii_lower ([] :: nat dataframe list) [lit ''a''] = Inr writer \<and>
      close_book ascii_lower writer = Inr book \<and> sheet_names book = [lit ''Sheet1''])"
proof (intro conjI)
  show "min (length [example_frame 1, example_frame 1, example_frame 1])
       (length [lit ''a'', lit ''a'']) = 2" by simp
next
  have "\<exists>writer. foldE (sheet_with ascii_lower 30 band_excel)
      (zip [example_frame 1, example_frame 1, example_frame 1] [lit ''a'', lit ''a''])
      (new_workbook\<lparr>default_font_size := 15\<rparr>) = Inr writer"
    by (rule writer_succeeds) (simp_all add: fits_example_frame valid_example_names)
  then obtain writer where
    w: "excel_writer ascii_lower [example_frame 1, example_frame 1, example_frame 1]
        [lit ''a'', lit ''a''] = Inr writer"
    unfolding excel_writer_eq by blast
  from writer_sheet_names(1,2) [OF w [unfolded excel_writer_eq]]
  have "distinct (sheet_names writer)" "set (sheet_names writer) = {lit ''a''}"
    by simp_all
  then have "sheet_names writer = [lit ''a'']"
    by (cases "sheet_names writer") (auto simp: distinct_length_2_or_more
        dest: subset_singletonD)
  with w show "\<exists>writer. excel_writer ascii_lower
      [example_frame 1, example_frame 1, example_frame 1] [lit ''a'', lit ''a''] = Inr writer \<and>
      sheet_names writer = [lit ''a'']" by blast
next
  let ?new = "new_workbook\<lparr>default_font_size := 15\<rparr> :: nat workbook"
  have "\<exists>w. sheet_with ascii_lower 30 band_excel (example_frame 1, lit ''a'') ?new = Inr w"
    by (rule sheet_with_succeeds)
      (simp_all add: fits_example_frame valid_example_names new_workbook_def)
  then obtain w where
    w: "sheet_with ascii_lower 30 band_excel (example_frame 1, lit ''a'') ?new = Inr w" ..
  from sheet_with_Inr [OF w] have n: "sheet_names w = [lit ''a'']"
    and s: "sheets w (lit ''A'') = None"
    by (simp_all add: new_workbook_def lit_def)
  have "sheet_with ascii_lower 30 band_excel (example_frame 1, lit ''A'') w =
      Inl DuplicateWorksheetName"
    by (rule sheet_with_duplicate)
      (simp_all add: fits_example_frame valid_example_names n s, simp add: ascii_lower_def lit_def)
  with w have "excel_writer ascii_lower [example_frame 1, example_frame 1, example_frame 1]
      [lit ''a'', lit ''A''] = Inl DuplicateWorksheetName"
    by (simp add: excel_writer_eq bindE_def)
  then show "generate_excel ascii_lower example_save example_put_object
     [example_frame 1, example_frame 1, example_frame 1] [lit ''a'', lit ''A'']
     None None False None = Inl DuplicateWorksheetName"
    by (simp add: generate_excel_def bindE_def)
next
  have w: "excel_writer ascii_lower ([] :: nat dataframe list) [lit ''a''] =
      Inr (new_workbook\<lparr>default_font_size := 15\<rparr>)"
    by (simp add: excel_writer_eq)
  from writer_close [OF w [unfolded excel_writer_eq]] w
  show "\<exists>writer book. excel_writer ascii_lower ([] :: nat dataframe list) [lit ''a''] =
      Inr writer \<and> close_book ascii_lower writer = Inr book \<and> sheet_names book = [lit ''Sheet1'']"
    by auto
qed

text \<open>
  C10, as the code has it. Whatever the lengths of the two lists, \<open>generate_excel\<close>
  handles the first \<open>m\<close> pairs, \<open>m\<close> being the smaller length, and ignores the rest: it
  behaves as on the lists cut to \<open>m\<close>, with the same result or the same error. The
  lengths raise nothing: when the frames are within the size the writer takes and the
  names are such that the engine takes them (not empty, at most 31 characters, none of
  \<open>[]:*?/\<close> and the backslash, no apostrophe at either end) and no two different names
  are equal in lower case, the writer is produced, and with \<open>upload\<close> off
  \<open>generate_excel\<close> returns normally. When the writer is produced, its sheets are
  those of the distinct names among the first \<open>m\<close>; when these names are pairwise
  distinct they are exactly \<open>m\<close> sheets, in the order given. The workbook saved has
  these sheets, and the one sheet \<open>Sheet1\<close> when \<open>m\<close> is 0.
\<close>

theorem generate_excel_unequal_lengths:
  assumes "m = min (length dataframe_list) (length sheet_name_list)"
  shows
    "generate_excel lower save put_object dataframe_list sheet_name_list bucket filename upload
       cos_client =
     generate_excel lower save put_object (take m dataframe_list) (take m sheet_name_list) bucket
       filename upload cos_client \<and>
     ((\<forall>(df, name) \<in> set (zip dataframe_list sheet_name_list). fits df \<and> valid_name name) \<and>
      inj_on lower (set (take m sheet_name_list)) \<longrightarrow>
        (\<exists>writer'. excel_writer lower dataframe_list sheet_name_list = Inr writer') \<and>
        generate_excel lower save put_object dataframe_list sheet_name_list bucket filename False
          cos_client = Inr (None, cos_client)) \<and>
     (excel_writer lower dataframe_list sheet_name_list = Inr writer \<longrightarrow>
        distinct (sheet_names writer) \<and>
        set (sheet_names writer) = set (take m sheet_name_list) \<and>
        (distinct (take m sheet_name_list) \<longrightarrow> sheet_names writer = take m sheet_name_list) \<and>
        (\<exists>book. close_book lower writer = Inr book \<and>
           sheet_names book = (if m = 0 then [lit ''Sheet1''] else sheet_names writer)))"
proof (intro conjI impI)
  show "generate_excel lower save put_object dataframe_list sheet_name_list bucket filename upload
       cos_client =
     generate_excel lower save put_object (take m dataframe_list) (take m sheet_name_list) bucket
       filename upload cos_client"
    unfolding assms by (simp add: writer_take generate_excel_def)
next
  assume a: "(\<forall>(df, name) \<in> set (zip dataframe_list sheet_name_list). fits df \<and> valid_name name) \<and>
      inj_on lower (set (take m sheet_name_list))"
  then have "\<exists>writer'. foldE (sheet_with lower 30 band_excel)
      (zip dataframe_list sheet_name_list) (new_workbook\<lparr>default_font_size := 15\<rparr>) = Inr writer'"
    unfolding assms by (intro writer_succeeds) simp_all
  then obtain w where w: "excel_writer lower dataframe_list sheet_name_list = Inr w"
    unfolding excel_writer_eq by blast
  then show "\<exists>writer'. excel_writer lower dataframe_list sheet_name_list = Inr writer'" by blast
  from writer_close [OF w [unfolded excel_writer_eq]] obtain book where
    "close_book lower w = Inr book" by blast
  with w show "generate_excel lower save put_object dataframe_list sheet_name_list bucket
      filename False cos_client = Inr (None, cos_client)"
    by (simp add: generate_excel_def bindE_def)
next
  assume w: "excel_writer lower dataframe_list sheet_name_list = Inr writer"
  note n = writer_sheet_names [OF w [unfolded excel_writer_eq]]
  from n(1) show "distinct (sheet_names writer)" .
  from n(2) show "set (sheet_names writer) = set (take m sheet_name_list)"
    unfolding assms .
  from writer_close [OF w [unfolded excel_writer_eq]]
  show "\<exists>book. close_book lower writer = Inr book \<and>
      sheet_names book = (if m = 0 then [lit ''Sheet1''] else sheet_names writer)"
    unfolding assms .
  assume "distinct (take m sheet_name_list)"
  with n(3) show "sheet_names writer = take m sheet_name_list"
    unfolding assms by simp
qed

theorem generate_excel_unequal_lengths_witness:
  "\<exists>writer.
     excel_writer ascii_lower [example_frame 1, example_frame 2, example_frame 3]
       [lit ''a'', lit ''b''] = Inr writer \<and>
     sheet_names writer = [lit ''a'', lit ''b''] \<and>
     close_book ascii_lower writer = Inr writer \<and>
     generate_excel ascii_lower example_save example_put_object
       [example_frame 1, example_frame 2, example_frame 3] [lit ''a'', lit ''b''] None None False
       None = Inr (None, None)"
proof -
  have i: "inj_on ascii_lower (set (take 2 [lit ''a'', lit ''b'']))"
    by (simp add: ascii_lower_def lit_def)
  have v: "\<forall>(df, name) \<in> set (zip [example_frame 1, example_frame 2, example_frame 3]
      [lit ''a'', lit ''b'']). fits df \<and> valid_name name"
    by (simp add: fits_example_frame valid_example_names)
  have d: "distinct (take 2 [lit ''a'', lit ''b''])" by (simp add: lit_def)
  have m: "2 = min (length [example_frame 1, example_frame 2, example_frame 3])
      (length [lit ''a'', lit ''b''])" by simp
  note t = generate_excel_unequal_lengths [OF m, of ascii_lower example_save example_put_object
      None None _ None]
  from t [of False] i v obtain writer where
    w: "excel_writer ascii_lower [example_frame 1, example_frame 2, example_frame 3]
      [lit ''a'', lit ''b''] = Inr writer"
    and g: "generate_excel ascii_lower example_save example_put_object
       [example_frame 1, example_frame 2, example_frame 3] [lit ''a'', lit ''b''] None None False
       None = Inr (None, None)"
    by blast
  from t [of False writer] w d have n: "sheet_names writer = [lit ''a'', lit ''b'']"
    by simp
  then have "close_book ascii_lower writer = Inr writer"
    by (simp add: close_book_def)
  with w g n show ?thesis by blast
qed

subsection \<open>What the report builders return\<close>

text \<open>With \<open>upload\<close> off, \<open>generate_excel\<close> returns \<open>None\<close> and no buffer.\<close>

theorem generate_excel_returns_buffer_counterexample:
  "generate_excel ascii_lower example_save example_put_object [example_frame 5] [lit ''Sheet1'']
     None None False None = Inr (None, None)"
proof -
  from example_writers(1) [of 5 ascii_lower] obtain writer :: "nat workbook" where
    w: "excel_writer ascii_lower [example_frame 5] [lit ''Sheet1''] = Inr writer"
    by auto
  from writer_close [OF w [unfolded excel_writer_eq]] obtain book where
    "close_book ascii_lower writer = Inr book" by blast
  with w show ?thesis by (simp add: generate_excel_def bindE_def)
qed

text \<open>
  C4, as the code has it. \<open>generate_excel\<close> and \<open>generate_excel_effectiveness\<close> return
  \<open>None\<close> whenever they return. The buffer that holds the saved workbook goes to the
  storage client, as the body of one \<open>put_object\<close> call under the given bucket and key,
  when \<open>upload\<close> is set, and nowhere otherwise.
\<close>

theorem generate_excel_returns_none:
  "(generate_excel lower save put_object dataframe_list sheet_name_list bucket filename upload
      cos_client = Inr (returned, cos_client') \<longrightarrow>
    returned = None \<and>
    (\<exists>writer book. excel_writer lower dataframe_list sheet_name_list = Inr writer \<and>
       close_book lower writer = Inr book \<and>
       (if upload
        then \<exists>client client'. cos_client = Some client \<and>
               put_object client bucket filename (save book) = Inr client' \<and>
               cos_client' = Some client'
        else cos_client' = cos_client))) \<and>
   (generate_excel_effectiveness lower save put_object dataframe_list sheet_name_list bucket
      filename upload cos_client = Inr (returned, cos_client') \<longrightarrow>
    returned = None \<and>
    (\<exists>writer book. effectiveness_writer lower dataframe_list sheet_name_list = Inr writer \<and>
       close_book lower writer = Inr book \<and>
       (if upload
        then \<exists>client client'. cos_client = Some client \<and>
               put_object client bucket filename (save book) = Inr client' \<and>
               cos_client' = Some client'
        else cos_client' = cos_client)))"
  by (auto simp: generate_excel_def generate_excel_effectiveness_def bindE_def
      split: option.splits sum.splits)

theorem generate_excel_returns_none_witness:
  "(\<exists>writer. excel_writer ascii_lower [example_frame 5] [lit ''Sheet1''] = Inr writer \<and>
      close_book ascii_lower writer = Inr writer \<and>
      generate_excel ascii_lower example_save example_put_object [example_frame 5]
        [lit ''Sheet1''] (Some (lit ''reports'')) (Some (lit ''report.xlsx'')) True (Some []) =
        Inr (None, Some [example_save writer])) \<and>
   (\<exists>writer. effectiveness_writer ascii_lower [example_frame 5] [lit ''Sheet1''] = Inr writer \<and>
      close_book ascii_lower writer = Inr writer \<and>
      generate_excel_effectiveness ascii_lower example_save example_put_object [example_frame 5]
        [lit ''Sheet1''] (Some (lit ''reports'')) (Some (lit ''report.xlsx'')) True (Some []) =
        Inr (None, Some [example_save writer]))"
proof -
  from example_writers [of 5 ascii_lower] obtain w1 w2 :: "nat workbook" where
    w: "excel_writer ascii_lower [example_frame 5] [lit ''Sheet1''] = Inr w1"
      "effectiveness_writer ascii_lower [example_frame 5] [lit ''Sheet1''] = Inr w2"
    by auto
  from writer_sheet_names(2) [OF w(1) [unfolded excel_writer_eq]]
    writer_sheet_names(2) [OF w(2) [unfolded effectiveness_writer_eq]]
  have "sheet_names w1 \<noteq> []" "sheet_names w2 \<noteq> []" by auto
  then have c: "close_book ascii_lower w1 = Inr w1" "close_book ascii_lower w2 = Inr w2"
    by (simp_all add: close_book_def)
  with w have r: "generate_excel ascii_lower example_save example_put_object [example_frame 5]
        [lit ''Sheet1''] (Some (lit ''reports'')) (Some (lit ''report.xlsx'')) True (Some []) =
        Inr (None, Some [example_save w1])"
    "generate_excel_effectiveness ascii_lower example_save example_put_object [example_frame 5]
        [lit ''Sheet1''] (Some (lit ''reports'')) (Some (lit ''report.xlsx'')) True (Some []) =
        Inr (None, Some [example_save w2])"
    by (simp_all add: generate_excel_def generate_excel_effectiveness_def example_put_object_def
        bindE_def)
  from generate_excel_returns_none [of ascii_lower example_save example_put_object
      "[example_frame 5]" "[lit ''Sheet1'']" "Some (lit ''reports'')"
      "Some (lit ''report.xlsx'')" True "Some []" None "Some [example_save w1]"]
    generate_excel_returns_none [of ascii_lower example_save example_put_object
      "[example_frame 5]" "[lit ''Sheet1'']" "Some (lit ''reports'')"
      "Some (lit ''report.xlsx'')" True "Some []" None "Some [example_save w2]"]
    w r c
  show ?thesis by simp
qed

end
